theory Spec2Isabelle
  imports Complex_Main "HOL-Library.Multiset"
begin

section \<open>Data model\<close>

text \<open>
  The structs of the program, one record each. Field names carry the struct's name as
  a prefix where two structs share a field name. Go's \<open>int\<close> is modelled by \<open>int\<close>: every
  counter of the program starts at zero and is incremented once per element of a slice,
  and a slice's length fits the machine integer, so no counter wraps around.

  A \<open>time.Time\<close> is an instant on the time line; it is modelled by its signed distance
  from Go's zero \<open>Time\<close> (January 1 of year 1, UTC), which is what \<open>After\<close> compares.
  Instants before the zero \<open>Time\<close> exist (year 0 is a valid RFC 3339 year), so the
  distance is an \<open>int\<close>.
\<close>

type_synonym time = int

definition zeroTime :: time where
  "zeroTime = 0"

definition After :: "time \<Rightarrow> time \<Rightarrow> bool" where
  "After t u = (u < t)"

record Actor =
  Login :: string

record Repo =
  Repo_Name :: string
  Repo_URL :: string

record Commit =
  SHA :: string
  Message :: string

record Issue =
  Issue_Title :: string
  Issue_State :: string

record PullRequest =
  PullRequest_Title :: string
  PullRequest_State :: string

record Payload =
  Action :: string
  RefType :: string
  Ref :: string
  Commits :: "Commit list"
  Payload_Issue :: "Issue option"
  Payload_PullRequest :: "PullRequest option"

record GitHubEvent =
  Type :: string
  Event_Actor :: Actor
  Event_Repo :: Repo
  Event_Payload :: Payload
  Event_CreatedAt :: time

record GitHubStats =
  PushEvents :: int
  IssueEvents :: int
  WatchEvents :: int
  ForkEvents :: int
  CreateEvents :: int
  DeleteEvents :: int
  PullRequestEvents :: int
  ReleaseEvents :: int
  PublicEvents :: int
  OtherEvents :: int
  TotalEvents :: int

record RepoInfo =
  Name :: string
  URL :: string
  CloneURL :: string
  Count :: int
  LastActivity :: time
  Description :: string

record PublicRepo =
  PublicRepo_Name :: string
  FullName :: string
  PublicRepo_Description :: string
  PublicRepo_URL :: string
  PublicRepo_CloneURL :: string
  Stars :: int
  Forks :: int
  Language :: string
  CreatedAt :: time
  UpdatedAt :: time
  Private :: bool

section \<open>Statistics: \<open>calculateStats\<close>\<close>

text \<open>The zero value of \<open>GitHubStats\<close> (\<open>var stats GitHubStats\<close>).\<close>

definition zeroStats :: GitHubStats where
  "zeroStats = \<lparr> PushEvents = 0, IssueEvents = 0, WatchEvents = 0, ForkEvents = 0,
     CreateEvents = 0, DeleteEvents = 0, PullRequestEvents = 0, ReleaseEvents = 0,
     PublicEvents = 0, OtherEvents = 0, TotalEvents = 0 \<rparr>"

text \<open>One iteration of the loop body: the total, then the switch on the type tag.\<close>

definition countEvent :: "GitHubEvent \<Rightarrow> GitHubStats \<Rightarrow> GitHubStats" where
  "countEvent event stats0 =
     (let stats = stats0\<lparr>TotalEvents := TotalEvents stats0 + 1\<rparr> in
      if Type event = ''PushEvent'' then stats\<lparr>PushEvents := PushEvents stats + 1\<rparr>
      else if Type event = ''IssuesEvent'' then stats\<lparr>IssueEvents := IssueEvents stats + 1\<rparr>
      else if Type event = ''WatchEvent'' then stats\<lparr>WatchEvents := WatchEvents stats + 1\<rparr>
      else if Type event = ''ForkEvent'' then stats\<lparr>ForkEvents := ForkEvents stats + 1\<rparr>
      else if Type event = ''CreateEvent'' then stats\<lparr>CreateEvents := CreateEvents stats + 1\<rparr>
      else if Type event = ''DeleteEvent'' then stats\<lparr>DeleteEvents := DeleteEvents stats + 1\<rparr>
      else if Type event = ''PullRequestEvent''
        then stats\<lparr>PullRequestEvents := PullRequestEvents stats + 1\<rparr>
      else if Type event = ''ReleaseEvent'' then stats\<lparr>ReleaseEvents := ReleaseEvents stats + 1\<rparr>
      else if Type event = ''PublicEvent'' then stats\<lparr>PublicEvents := PublicEvents stats + 1\<rparr>
      else stats\<lparr>OtherEvents := OtherEvents stats + 1\<rparr>)"

fun calculateStats_loop :: "GitHubEvent list \<Rightarrow> GitHubStats \<Rightarrow> GitHubStats" where
  "calculateStats_loop [] stats = stats"
| "calculateStats_loop (event # events) stats = calculateStats_loop events (countEvent event stats)"

definition calculateStats :: "GitHubEvent list \<Rightarrow> GitHubStats" where
  "calculateStats events = calculateStats_loop events zeroStats"

text \<open>The sum of the nine counters that carry an event kind's name.\<close>

definition namedBuckets :: "GitHubStats \<Rightarrow> int" where
  "namedBuckets s = PushEvents s + IssueEvents s + WatchEvents s + ForkEvents s +
     CreateEvents s + DeleteEvents s + PullRequestEvents s + ReleaseEvents s + PublicEvents s"

text \<open>An event with only its type tag, repository name and timestamp set.\<close>

definition mkEvent :: "string \<Rightarrow> string \<Rightarrow> time \<Rightarrow> GitHubEvent" where
  "mkEvent ty name t = \<lparr> Type = ty, Event_Actor = \<lparr> Login = [] \<rparr>,
     Event_Repo = \<lparr> Repo_Name = name, Repo_URL = [] \<rparr>,
     Event_Payload = \<lparr> Action = [], RefType = [], Ref = [], Commits = [],
       Payload_Issue = None, Payload_PullRequest = None \<rparr>,
     Event_CreatedAt = t \<rparr>"

section \<open>Grade: \<open>getGrade\<close>\<close>

text \<open>
  The score is a \<open>float64\<close>, and what Go computes for it depends on rounding (and on
  whether the compiler fuses a multiplication with an addition) once a value needs more
  than 53 significant bits. The model covers the counters below \<open>2 ^ 48\<close> in magnitude
  and gives \<open>None\<close> beyond. For such counters the conversion is exact, every product is
  a multiple of one half below \<open>2 ^ 50\<close>, and every partial sum is a multiple of one half
  below \<open>2 ^ 51\<close>; all of these are \<open>float64\<close> values, so no step rounds, fused or not,
  and the rational arithmetic below is the arithmetic of the program.
\<close>

definition float64 :: "int \<Rightarrow> rat option" where
  "float64 n = (if \<bar>n\<bar> < 2 ^ 48 then Some (of_int n) else None)"

definition getGrade_score :: "GitHubStats \<Rightarrow> rat option" where
  "getGrade_score stats =
     (case float64 (PushEvents stats) of None \<Rightarrow> None | Some push \<Rightarrow>
     (case float64 (PullRequestEvents stats) of None \<Rightarrow> None | Some pull \<Rightarrow>
     (case float64 (CreateEvents stats) of None \<Rightarrow> None | Some create \<Rightarrow>
     (case float64 (IssueEvents stats) of None \<Rightarrow> None | Some issue \<Rightarrow>
     (case float64 (WatchEvents stats) of None \<Rightarrow> None | Some watch \<Rightarrow>
        Some (push * 1.0 + pull * 3.0 + create * 1.0 + issue * 1.5 + watch * 0.5))))))"

definition getGrade :: "GitHubStats \<Rightarrow> string option" where
  "getGrade stats =
     (if TotalEvents stats = 0 then Some ''F''
      else case getGrade_score stats of
        None \<Rightarrow> None
      | Some score \<Rightarrow> Some (
          if score \<ge> 100 then ''S+''
          else if score \<ge> 70 then ''S''
          else if score \<ge> 40 then ''A+''
          else if score \<ge> 25 then ''A''
          else if score \<ge> 15 then ''B+''
          else if score \<ge> 8 then ''B''
          else if score \<ge> 3 then ''C''
          else if score \<ge> 1 then ''D''
          else ''F''))"

text \<open>The statistics whose score the model covers: the five weighted counters in range.\<close>

definition scoreExact :: "GitHubStats \<Rightarrow> bool" where
  "scoreExact s =
     (\<bar>PushEvents s\<bar> < 2 ^ 48 \<and> \<bar>PullRequestEvents s\<bar> < 2 ^ 48 \<and> \<bar>CreateEvents s\<bar> < 2 ^ 48 \<and>
      \<bar>IssueEvents s\<bar> < 2 ^ 48 \<and> \<bar>WatchEvents s\<bar> < 2 ^ 48)"

text \<open>
  The grade as the specification words it: the weighted score, the eight thresholds in
  increasing order and the nine bands; the band is the number of thresholds reached.
\<close>

definition spec_weights :: "GitHubStats \<Rightarrow> rat" where
  "spec_weights s = of_int (PushEvents s) * 1 + of_int (PullRequestEvents s) * 3 +
     of_int (CreateEvents s) * 1 + of_int (IssueEvents s) * (3 / 2) +
     of_int (WatchEvents s) * (1 / 2)"

definition spec_thresholds :: "rat list" where
  "spec_thresholds = [1, 3, 8, 15, 25, 40, 70, 100]"

definition spec_bands :: "string list" where
  "spec_bands = [''F'', ''D'', ''C'', ''B'', ''B+'', ''A'', ''A+'', ''S'', ''S+'']"

definition spec_gradeFor :: "GitHubStats \<Rightarrow> string" where
  "spec_gradeFor s =
     (if TotalEvents s = 0 then ''F''
      else spec_bands ! length (filter (\<lambda>t. t \<le> spec_weights s) spec_thresholds))"

definition scenarioEvents :: "GitHubEvent list" where
  "scenarioEvents =
     replicate 3 (mkEvent ''PushEvent'' ''o/r'' 1) @
     replicate 2 (mkEvent ''IssuesEvent'' ''o/r'' 1) @
     replicate 1 (mkEvent ''WatchEvent'' ''o/r'' 1)"

section \<open>Repository aggregation: \<open>getTopRepos\<close>\<close>

text \<open>
  The two Go maps are partial functions; reading a missing key gives the zero value of
  the element type (\<open>0\<close>, the zero \<open>Time\<close>).
\<close>

definition countOf :: "(string \<rightharpoonup> int) \<Rightarrow> string \<Rightarrow> int" where
  "countOf repoCount name = (case repoCount name of None \<Rightarrow> 0 | Some c \<Rightarrow> c)"

definition lastActOf :: "(string \<rightharpoonup> time) \<Rightarrow> string \<Rightarrow> time" where
  "lastActOf reposLastAct name = (case reposLastAct name of None \<Rightarrow> zeroTime | Some t \<Rightarrow> t)"

text \<open>The body of the counting loop.\<close>

definition countRepo ::
  "GitHubEvent \<Rightarrow> (string \<rightharpoonup> int) \<times> (string \<rightharpoonup> time) \<Rightarrow> (string \<rightharpoonup> int) \<times> (string \<rightharpoonup> time)" where
  "countRepo event maps =
     (let repoCount = fst maps; reposLastAct = snd maps; name = Repo_Name (Event_Repo event) in
      if name \<noteq> [] then
        (repoCount(name \<mapsto> countOf repoCount name + 1),
         if After (Event_CreatedAt event) (lastActOf reposLastAct name)
         then reposLastAct(name \<mapsto> Event_CreatedAt event)
         else reposLastAct)
      else (repoCount, reposLastAct))"

fun countRepos ::
  "GitHubEvent list \<Rightarrow> (string \<rightharpoonup> int) \<times> (string \<rightharpoonup> time) \<Rightarrow> (string \<rightharpoonup> int) \<times> (string \<rightharpoonup> time)" where
  "countRepos [] maps = maps"
| "countRepos (event # events) maps = countRepos events (countRepo event maps)"

definition mkRepoInfo :: "(string \<rightharpoonup> int) \<times> (string \<rightharpoonup> time) \<Rightarrow> string \<Rightarrow> RepoInfo" where
  "mkRepoInfo maps name =
     \<lparr> Name = name,
       URL = ''https://github.com/'' @ name,
       CloneURL = ''https://github.com/'' @ name @ ''.git'',
       Count = countOf (fst maps) name,
       LastActivity = lastActOf (snd maps) name,
       Description = [] \<rparr>"

text \<open>
  The exchange sort, on indices as the source has it. The inner loop runs \<open>j\<close> over
  \<open>0 ..< bound\<close> with \<open>bound = len(repos) - i - 1\<close>; inside the outer loop
  \<open>i < len(repos) - 1\<close>, so \<open>j + 1\<close> is always a valid index.
\<close>

function bubble_inner :: "nat \<Rightarrow> nat \<Rightarrow> RepoInfo list \<Rightarrow> RepoInfo list" where
  "bubble_inner j bound repos =
     (if j < bound
      then bubble_inner (j + 1) bound
             (if Count (repos ! j) < Count (repos ! (j + 1))
              then repos[j := repos ! (j + 1), j + 1 := repos ! j]
              else repos)
      else repos)"
  by pat_completeness auto
termination
  by (relation "measure (\<lambda>(j, bound, repos). bound - j)") auto

function bubble_outer :: "nat \<Rightarrow> nat \<Rightarrow> RepoInfo list \<Rightarrow> RepoInfo list" where
  "bubble_outer len i repos =
     (if int i < int len - 1
      then bubble_outer len (i + 1) (bubble_inner 0 (len - i - 1) repos)
      else repos)"
  by pat_completeness auto
termination
  by (relation "measure (\<lambda>(len, i, repos). len - i)") auto

declare bubble_inner.simps [simp del] bubble_outer.simps [simp del]

text \<open>
  The invariant of the outer loop: after \<open>i\<close> passes the last \<open>i\<close> places are settled;
  each holds a count no greater than the count at any place before it.
\<close>

definition settled :: "nat \<Rightarrow> RepoInfo list \<Rightarrow> bool" where
  "settled i xs = (\<forall>p q. p < q \<longrightarrow> q < length xs \<longrightarrow> length xs - i \<le> q \<longrightarrow>
                      Count (xs ! q) \<le> Count (xs ! p))"

text \<open>
  \<open>getTopRepos\<close>. Go leaves the order in which \<open>range\<close> visits a map unspecified; the
  order the runtime picks is the parameter \<open>order\<close>, an enumeration of the keys of
  \<open>repoCount\<close> (see \<open>rangeOrder\<close>). The swaps keep the slice's length, which the
  loops read as \<open>len\<close>.
\<close>

definition getTopRepos :: "string list \<Rightarrow> GitHubEvent list \<Rightarrow> RepoInfo list" where
  "getTopRepos order events =
     (let maps = countRepos events (Map.empty, Map.empty);
          repos = map (mkRepoInfo maps) order
      in bubble_outer (length repos) 0 repos)"

definition rangeOrder :: "string list \<Rightarrow> GitHubEvent list \<Rightarrow> bool" where
  "rangeOrder order events =
     (distinct order \<and> set order = dom (fst (countRepos events (Map.empty, Map.empty))))"

text \<open>The events of a list that reference a repository name.\<close>

definition eventsOf :: "string \<Rightarrow> GitHubEvent list \<Rightarrow> GitHubEvent list" where
  "eventsOf name events = filter (\<lambda>e. Repo_Name (Event_Repo e) = name) events"

definition sortedByCount :: "RepoInfo list \<Rightarrow> bool" where
  "sortedByCount repos = sorted_wrt (\<lambda>a b. Count a \<ge> Count b) repos"

section \<open>Repository ingestion: \<open>fetchPublicRepos\<close>\<close>

text \<open>
  The HTTP exchange is the world outside the program. For the page number asked, the
  world answers with the outcome of the round trip: building the request fails, the
  transport fails, or a status code arrives with a body that cannot be read, cannot be
  decoded, or decodes to a list of repository records.
\<close>

datatype bodyResult = ReadFails | UnmarshalFails | Decoded "PublicRepo list"

datatype roundTrip = NewRequestFails | DoFails | Responds int bodyResult

datatype fetchError = ErrCreatingRequest | ErrRequestHTTP | ErrUserNotFound | ErrHTTP int
  | ErrReadingResponse | ErrParsingJSON

definition perPage :: nat where
  "perPage = 100"

text \<open>
  The paging loop. Nothing bounds the number of pages, so the loop is a partial
  function: \<open>None\<close> is the run that never returns.
\<close>

partial_function (option) fetchPublicRepos_loop ::
  "(nat \<Rightarrow> roundTrip) \<Rightarrow> nat \<Rightarrow> PublicRepo list \<Rightarrow> (fetchError + PublicRepo list) option" where
  "fetchPublicRepos_loop http page allRepos =
     (case http page of
        NewRequestFails \<Rightarrow> Some (Inl ErrCreatingRequest)
      | DoFails \<Rightarrow> Some (Inl ErrRequestHTTP)
      | Responds code body \<Rightarrow>
          if code = 404 then Some (Inl ErrUserNotFound)
          else if code \<noteq> 200 then Some (Inl (ErrHTTP code))
          else (case body of
                  ReadFails \<Rightarrow> Some (Inl ErrReadingResponse)
                | UnmarshalFails \<Rightarrow> Some (Inl ErrParsingJSON)
                | Decoded repos \<Rightarrow>
                    if length repos = 0 then Some (Inr allRepos)
                    else if length repos < perPage
                    then Some (Inr (allRepos @ filter (\<lambda>repo. \<not> Private repo) repos))
                    else fetchPublicRepos_loop http (page + 1)
                           (allRepos @ filter (\<lambda>repo. \<not> Private repo) repos)))"

definition fetchPublicRepos :: "(nat \<Rightarrow> roundTrip) \<Rightarrow> (fetchError + PublicRepo list) option" where
  "fetchPublicRepos http = fetchPublicRepos_loop http 1 []"

text \<open>The records of the raw payload of a page (none unless the page decodes).\<close>

definition payloadOf :: "roundTrip \<Rightarrow> PublicRepo list" where
  "payloadOf r = (case r of Responds code (Decoded repos) \<Rightarrow> repos | _ \<Rightarrow> [])"

text \<open>
  The shape of a run that ends well at page \<open>k\<close>: every earlier page is a full page
  with status 200, and page \<open>k\<close> has status 200 and fewer than \<open>perPage\<close> records.
\<close>

definition fullPage :: "(nat \<Rightarrow> roundTrip) \<Rightarrow> nat \<Rightarrow> bool" where
  "fullPage http p = (\<exists>rs. http p = Responds 200 (Decoded rs) \<and> perPage \<le> length rs)"

definition lastPage :: "(nat \<Rightarrow> roundTrip) \<Rightarrow> nat \<Rightarrow> bool" where
  "lastPage http p = (\<exists>rs. http p = Responds 200 (Decoded rs) \<and> length rs < perPage)"

definition endsAtPage :: "(nat \<Rightarrow> roundTrip) \<Rightarrow> nat \<Rightarrow> bool" where
  "endsAtPage http k = (1 \<le> k \<and> (\<forall>p \<in> {1..<k}. fullPage http p) \<and> lastPage http k)"

text \<open>The records a run that ends at page \<open>k\<close> has read, page after page.\<close>

definition payloadUpTo :: "(nat \<Rightarrow> roundTrip) \<Rightarrow> nat \<Rightarrow> PublicRepo list" where
  "payloadUpTo http k = concat (map (\<lambda>p. payloadOf (http p)) [1..<Suc k])"

section \<open>The dashboard model\<close>

datatype viewMode = repoListView | repoTableView | statsView | activityView

datatype item = repoItem PublicRepo | activityItem GitHubEvent

text \<open>
  The messages the event loop delivers. An \<open>error\<close> is \<open>None\<close> for \<open>nil\<close> and \<open>Some\<close> of
  its text otherwise. Of a key message the program reads \<open>msg.Type\<close> and \<open>msg.String()\<close>;
  \<open>KeyMsg\<close> carries both. \<open>OtherMsg\<close> stands for every message type that the type
  switch of \<open>Update\<close> does not name.
\<close>

datatype KeyType = KeyRunes | KeyEsc | KeyCtrlC | KeyEnter | KeyTab | KeyOtherType

datatype Msg =
    WindowSizeMsg int int
  | reposLoadedMsg "PublicRepo list" "string option"
  | eventsLoadedMsg "GitHubEvent list" GitHubStats "string option"
  | NotificationMsg string bool
  | ClearNotificationMsg
  | spinner_TickMsg nat
  | KeyMsg KeyType string
  | OtherMsg nat

text \<open>
  The commands \<open>Update\<close> hands back to the runtime. \<open>Tick d msg\<close> is \<open>tea.Tick\<close>: after
  \<open>d\<close> seconds the runtime delivers \<open>msg\<close>. \<open>LibCmd\<close> is a command made by a component of
  the UI library; such a command cannot deliver a message type of this program.
\<close>

datatype Cmd =
    NoCmd
  | Quit
  | Blink
  | Tick nat Msg
  | loadReposCmd string
  | loadEventsCmd string
  | cloneRepo PublicRepo
  | copyURL PublicRepo
  | openInBrowser PublicRepo
  | LibCmd nat
  | Batch "Cmd list"

text \<open>
  The components of the UI library, each with the configuration the program writes and
  one field for the position the component keeps for itself.
\<close>

record list_Model =
  list_items :: "item list"
  list_Title :: string
  list_width :: int
  list_height :: int
  list_showStatusBar :: bool
  list_filteringEnabled :: bool
  list_cursor :: nat

record table_Model =
  table_cols :: "(string \<times> int) list"
  table_rows :: "string list list"
  table_focus :: bool
  table_height :: "int option"
  table_styled :: bool
  table_cursor :: nat

record viewport_Model =
  viewport_Width :: int
  viewport_Height :: int
  viewport_content :: string
  viewport_YOffset :: nat

record help_Model =
  help_Width :: int
  ShowAll :: bool

record textinput_Model =
  textinput_value :: string
  textinput_focus :: bool
  Placeholder :: string
  CharLimit :: int
  textinput_cursor :: nat

type_synonym spinner_Model = nat

text \<open>
  What the program calls but does not define, or defines through floating point
  formatting, terminal styling or map iteration order: the \<open>Update\<close> methods and the
  selection of the library components, \<open>strings.ToLower\<close>, \<open>formatNumber\<close>, the date
  layout, and the text of \<open>renderDetailedStats\<close> as a function of the data it reads.
  Every property below holds for all of them.
\<close>

record env =
  list_Update :: "Msg \<Rightarrow> list_Model \<Rightarrow> list_Model \<times> nat"
  list_SelectedItem :: "list_Model \<Rightarrow> item option"
  table_Update :: "Msg \<Rightarrow> table_Model \<Rightarrow> table_Model \<times> nat"
  viewport_Update :: "Msg \<Rightarrow> viewport_Model \<Rightarrow> viewport_Model \<times> nat"
  spinner_Update :: "Msg \<Rightarrow> spinner_Model \<Rightarrow> spinner_Model \<times> nat"
  spinner_Tick :: "spinner_Model \<Rightarrow> nat"
  textinput_Update :: "Msg \<Rightarrow> textinput_Model \<Rightarrow> textinput_Model \<times> nat"
  strings_ToLower :: "string \<Rightarrow> string"
  formatNumber :: "int \<Rightarrow> string"
  formatDate :: "time \<Rightarrow> string"
  renderDetailedStats :: "PublicRepo list \<Rightarrow> GitHubEvent list \<Rightarrow> GitHubStats \<Rightarrow> string"

text \<open>
  The struct \<open>Model\<close>. Its \<open>progress\<close> and \<open>paginator\<close> components are never read or
  written and are left out.
\<close>

record Model =
  username :: string
  events :: "GitHubEvent list"
  repos :: "RepoInfo list"
  publicRepos :: "PublicRepo list"
  stats :: GitHubStats
  listC :: list_Model
  tableC :: table_Model
  viewportC :: viewport_Model
  helpC :: help_Model
  spinnerC :: spinner_Model
  searchC :: textinput_Model
  currentView :: viewMode
  loading :: bool
  showHelp :: bool
  searchMode :: bool
  notification :: string
  notifSuccess :: bool
  width :: int
  height :: int
  ready :: bool
  reposLoaded :: bool
  eventsLoaded :: bool

subsection \<open>Formatting\<close>

definition digitChar :: "nat \<Rightarrow> char" where
  "digitChar d = ''0123456789'' ! d"

function decimal :: "nat \<Rightarrow> string" where
  "decimal n = (if n < 10 then [digitChar n] else decimal (n div 10) @ [digitChar (n mod 10)])"
  by pat_completeness auto
termination
  by (relation "measure id") auto

text \<open>The verb \<open>%d\<close> of \<open>fmt.Sprintf\<close>.\<close>

definition fmt_d :: "int \<Rightarrow> string" where
  "fmt_d n = (if n < 0 then CHR ''-'' # decimal (nat (- n)) else decimal (nat n))"

text \<open>The verb \<open>%v\<close> applied to a non-nil \<open>error\<close> prints its text.\<close>

definition fmt_v :: "string option \<Rightarrow> string" where
  "fmt_v err = (case err of None \<Rightarrow> ''<nil>'' | Some text \<Rightarrow> text)"

text \<open>The UTF-8 bytes of the symbols that open the program's texts.\<close>

definition crossMark :: string where
  "crossMark = [CHR 0xE2, CHR 0x9D, CHR 0x8C]"

definition fileFolder :: string where
  "fileFolder = [CHR 0xF0, CHR 0x9F, CHR 0x93, CHR 0x81]"

definition highVoltage :: string where
  "highVoltage = [CHR 0xE2, CHR 0x9A, CHR 0xA1]"

definition refreshArrows :: string where
  "refreshArrows = [CHR 0xF0, CHR 0x9F, CHR 0x94, CHR 0x84]"

definition strings_Contains :: "string \<Rightarrow> string \<Rightarrow> bool" where
  "strings_Contains s substr =
     list_ex (\<lambda>i. take (length substr) (drop i s) = substr) [0..<Suc (length s)]"

subsection \<open>Key bindings\<close>

definition keys_Quit :: "string list" where "keys_Quit = [''q'', ''esc'', ''ctrl+c'']"
definition keys_Help :: "string list" where "keys_Help = [''?'']"
definition keys_Tab :: "string list" where "keys_Tab = [''tab'']"
definition keys_Search :: "string list" where "keys_Search = [''/'']"
definition keys_Refresh :: "string list" where "keys_Refresh = [''r'']"
definition keys_Clone :: "string list" where "keys_Clone = [''c'']"
definition keys_Copy :: "string list" where "keys_Copy = [''x'']"
definition keys_Open :: "string list" where "keys_Open = [''o'']"

definition key_Matches :: "string \<Rightarrow> string list \<Rightarrow> bool" where
  "key_Matches s binding = (s \<in> set binding)"

subsection \<open>The methods of \<open>Model\<close>\<close>

definition loadData :: "Model \<Rightarrow> Cmd" where
  "loadData m = Batch [loadReposCmd (username m), loadEventsCmd (username m)]"

definition Init :: "env \<Rightarrow> Model \<Rightarrow> Cmd" where
  "Init E m = Batch [LibCmd (spinner_Tick E (spinnerC m)), loadData m]"

text \<open>
  The messages the two loading commands produce from the outcome of their fetch
  (\<open>Inl\<close> the error's text).
\<close>

definition loadReposCmd_msg :: "string + PublicRepo list \<Rightarrow> Msg" where
  "loadReposCmd_msg r = (case r of Inl e \<Rightarrow> reposLoadedMsg [] (Some e)
                                  | Inr rs \<Rightarrow> reposLoadedMsg rs None)"

definition loadEventsCmd_msg :: "string + GitHubEvent list \<Rightarrow> Msg" where
  "loadEventsCmd_msg r = (case r of Inl e \<Rightarrow> eventsLoadedMsg [] zeroStats (Some e)
                                   | Inr es \<Rightarrow> eventsLoadedMsg es (calculateStats es) None)"

definition checkLoadingComplete :: "Model \<Rightarrow> Model" where
  "checkLoadingComplete m =
     (if reposLoaded m \<and> eventsLoaded m then m\<lparr>loading := False, ready := True\<rparr> else m)"

definition updateRepoList :: "Model \<Rightarrow> Model" where
  "updateRepoList m =
     m\<lparr>listC := (listC m)\<lparr>
        list_items := map repoItem (publicRepos m),
        list_Title := fileFolder @ '' Public Repositories ('' @
                      fmt_d (int (length (publicRepos m))) @ '')''\<rparr>\<rparr>"

definition updateActivityList :: "Model \<Rightarrow> Model" where
  "updateActivityList m =
     m\<lparr>listC := (listC m)\<lparr>
        list_items := map activityItem (events m),
        list_Title := highVoltage @ '' Recent Activity ('' @
                      fmt_d (int (length (events m))) @ '' events)''\<rparr>\<rparr>"

definition filterRepoList :: "env \<Rightarrow> string \<Rightarrow> Model \<Rightarrow> Model" where
  "filterRepoList E query m =
     (if query = [] then updateRepoList m
      else let filtered = filter (\<lambda>repo.
                 strings_Contains (strings_ToLower E (PublicRepo_Name repo)) (strings_ToLower E query) \<or>
                 strings_Contains (strings_ToLower E (PublicRepo_Description repo))
                   (strings_ToLower E query)) (publicRepos m)
           in m\<lparr>listC := (listC m)\<lparr>
                list_items := map repoItem filtered,
                list_Title := fileFolder @ '' Repositories matching '' @ [CHR 0x27] @ query @
                              [CHR 0x27] @ '' ('' @ fmt_d (int (length filtered)) @ '')''\<rparr>\<rparr>)"

definition tableColumns :: "(string \<times> int) list" where
  "tableColumns = [(''Name'', 25), (''Stars'', 8), (''Forks'', 8), (''Language'', 12),
     (''Updated'', 12)]"

definition tableRow :: "env \<Rightarrow> PublicRepo \<Rightarrow> string list" where
  "tableRow E repo =
     (let lang = (if Language repo = [] then ''-'' else Language repo) in
      [PublicRepo_Name repo, formatNumber E (Stars repo), formatNumber E (Forks repo), lang,
       formatDate E (UpdatedAt repo)])"

definition updateRepoTable :: "env \<Rightarrow> Model \<Rightarrow> Model" where
  "updateRepoTable E m =
     m\<lparr>tableC := \<lparr> table_cols = tableColumns,
                    table_rows = map (tableRow E) (publicRepos m),
                    table_focus = True,
                    table_height = Some (height m - 8),
                    table_styled = True,
                    table_cursor = 0 \<rparr>\<rparr>"

definition updateTableSize :: "Model \<Rightarrow> Model" where
  "updateTableSize m =
     (if height m > 0
      then m\<lparr>tableC := \<lparr> table_cols = table_cols (tableC m),
                          table_rows = table_rows (tableC m),
                          table_focus = True,
                          table_height = Some (height m - 8),
                          table_styled = True,
                          table_cursor = 0 \<rparr>\<rparr>
      else m)"

definition updateStatsView :: "env \<Rightarrow> Model \<Rightarrow> Model" where
  "updateStatsView E m =
     m\<lparr>viewportC := (viewportC m)\<lparr>
        viewport_content := renderDetailedStats E (publicRepos m) (events m) (stats m)\<rparr>\<rparr>"

text \<open>The first switch of \<open>nextView\<close>: the successor of a view.\<close>

definition nextViewMode :: "viewMode \<Rightarrow> viewMode" where
  "nextViewMode v = (case v of
       repoListView \<Rightarrow> repoTableView
     | repoTableView \<Rightarrow> statsView
     | statsView \<Rightarrow> activityView
     | activityView \<Rightarrow> repoListView)"

definition nextView :: "env \<Rightarrow> Model \<Rightarrow> Model" where
  "nextView E m0 =
     (let m = m0\<lparr>currentView := nextViewMode (currentView m0)\<rparr> in
      case currentView m of
        repoListView \<Rightarrow> updateRepoList m
      | activityView \<Rightarrow> updateActivityList m
      | statsView \<Rightarrow> updateStatsView E m
      | repoTableView \<Rightarrow> m)"

definition handleSearchInput :: "env \<Rightarrow> Model \<Rightarrow> KeyType \<Rightarrow> string \<Rightarrow> Model \<times> Cmd" where
  "handleSearchInput E m ty s =
     (if ty = KeyEsc \<or> ty = KeyCtrlC then
        (updateRepoList
           (m\<lparr>searchMode := False,
              searchC := (searchC m)\<lparr>textinput_focus := False, textinput_value := [],
                           textinput_cursor := 0\<rparr>\<rparr>), NoCmd)
      else if ty = KeyEnter then
        (let m1 = m\<lparr>searchMode := False, searchC := (searchC m)\<lparr>textinput_focus := False\<rparr>\<rparr>
         in (filterRepoList E (textinput_value (searchC m1)) m1, NoCmd))
      else
        (let r = textinput_Update E (KeyMsg ty s) (searchC m)
         in (m\<lparr>searchC := fst r\<rparr>, LibCmd (snd r))))"

text \<open>The tail of the key case: the key goes to the component of the current view.\<close>

definition updateCurrentView :: "env \<Rightarrow> Model \<Rightarrow> Msg \<Rightarrow> Model \<times> Cmd" where
  "updateCurrentView E m msg =
     (case currentView m of
        repoListView \<Rightarrow> (let r = list_Update E msg (listC m) in (m\<lparr>listC := fst r\<rparr>, LibCmd (snd r)))
      | repoTableView \<Rightarrow> (let r = table_Update E msg (tableC m) in (m\<lparr>tableC := fst r\<rparr>, LibCmd (snd r)))
      | activityView \<Rightarrow> (let r = list_Update E msg (listC m) in (m\<lparr>listC := fst r\<rparr>, LibCmd (snd r)))
      | statsView \<Rightarrow>
          (let r = viewport_Update E msg (viewportC m) in (m\<lparr>viewportC := fst r\<rparr>, LibCmd (snd r))))"

text \<open>
  The guard shared by the clone, copy and open keys: the list view is current, there
  are repositories, and the selected item of the list is a repository item.
\<close>

definition selectedRepo :: "env \<Rightarrow> Model \<Rightarrow> PublicRepo option" where
  "selectedRepo E m =
     (if currentView m = repoListView \<and> length (publicRepos m) > 0
      then (case list_SelectedItem E (listC m) of
              Some (repoItem repo) \<Rightarrow> Some repo
            | _ \<Rightarrow> None)
      else None)"

fun Update :: "env \<Rightarrow> Model \<Rightarrow> Msg \<Rightarrow> Model \<times> Cmd" where
  "Update E m (WindowSizeMsg w h) =
     (let listHeight = h - 10;
          m1 = m\<lparr>width := w, height := h,
                 helpC := (helpC m)\<lparr>help_Width := w\<rparr>,
                 listC := (listC m)\<lparr>list_width := w - 4, list_height := listHeight\<rparr>\<rparr>;
          m2 = updateTableSize m1
      in (m2\<lparr>viewportC := (viewportC m2)\<lparr>viewport_Width := w - 4,
                                            viewport_Height := listHeight\<rparr>\<rparr>, NoCmd))"
| "Update E m (reposLoadedMsg rs err) =
     (let m1 = m\<lparr>reposLoaded := True\<rparr>;
          m2 = (if err \<noteq> None
                then m1\<lparr>notification := crossMark @ '' Error loading repositories: '' @ fmt_v err,
                        notifSuccess := False\<rparr>
                else updateRepoTable E (updateRepoList (m1\<lparr>publicRepos := rs\<rparr>)))
      in (checkLoadingComplete m2, NoCmd))"
| "Update E m (eventsLoadedMsg es st err) =
     (let m1 = m\<lparr>eventsLoaded := True\<rparr>;
          m2 = (if err \<noteq> None
                then m1\<lparr>notification := crossMark @ '' Error loading activity: '' @ fmt_v err,
                        notifSuccess := False\<rparr>
                else updateActivityList (m1\<lparr>events := es, stats := st\<rparr>))
      in (checkLoadingComplete m2, NoCmd))"
| "Update E m (NotificationMsg message isSuccess) =
     (m\<lparr>notification := message, notifSuccess := isSuccess\<rparr>, Tick 3 ClearNotificationMsg)"
| "Update E m ClearNotificationMsg = (m\<lparr>notification := []\<rparr>, NoCmd)"
| "Update E m (spinner_TickMsg t) =
     (let r = spinner_Update E (spinner_TickMsg t) (spinnerC m)
      in (m\<lparr>spinnerC := fst r\<rparr>, LibCmd (snd r)))"
| "Update E m (KeyMsg ty s) =
     (if searchMode m then handleSearchInput E m ty s
      else if key_Matches s keys_Quit then (m, Quit)
      else if key_Matches s keys_Help
        then (m\<lparr>helpC := (helpC m)\<lparr>ShowAll := \<not> ShowAll (helpC m)\<rparr>\<rparr>, NoCmd)
      else if key_Matches s keys_Tab then (nextView E m, NoCmd)
      else if key_Matches s keys_Search then
        (if currentView m = repoListView
         then (m\<lparr>searchMode := True, searchC := (searchC m)\<lparr>textinput_focus := True\<rparr>\<rparr>, Blink)
         else updateCurrentView E m (KeyMsg ty s))
      else if key_Matches s keys_Refresh then
        (let m1 = m\<lparr>loading := True, reposLoaded := False, eventsLoaded := False,
                      notification := refreshArrows @ '' Refreshing data...'',
                      notifSuccess := True\<rparr>
         in (m1, loadData m1))
      else if key_Matches s keys_Clone then
        (case selectedRepo E m of Some repo \<Rightarrow> (m, cloneRepo repo)
                                | None \<Rightarrow> updateCurrentView E m (KeyMsg ty s))
      else if key_Matches s keys_Copy then
        (case selectedRepo E m of Some repo \<Rightarrow> (m, copyURL repo)
                                | None \<Rightarrow> updateCurrentView E m (KeyMsg ty s))
      else if key_Matches s keys_Open then
        (case selectedRepo E m of Some repo \<Rightarrow> (m, openInBrowser repo)
                                | None \<Rightarrow> updateCurrentView E m (KeyMsg ty s))
      else updateCurrentView E m (KeyMsg ty s))"
| "Update E m (OtherMsg x) =
     (if loading m
      then (let r = spinner_Update E (OtherMsg x) (spinnerC m)
            in (m\<lparr>spinnerC := fst r\<rparr>, Batch [LibCmd (snd r)]))
      else (m, Batch []))"

text \<open>\<open>NewModel\<close>: the fields the composite literal names; every other field is zero.\<close>

definition NewModel :: "string \<Rightarrow> Model" where
  "NewModel user =
     \<lparr> username = user, events = [], repos = [], publicRepos = [], stats = zeroStats,
       listC = \<lparr> list_items = [], list_Title = ''Loading...'', list_width = 0,
                 list_height = 0, list_showStatusBar = False, list_filteringEnabled = False,
                 list_cursor = 0 \<rparr>,
       tableC = \<lparr> table_cols = [], table_rows = [], table_focus = False, table_height = None,
                  table_styled = False, table_cursor = 0 \<rparr>,
       viewportC = \<lparr> viewport_Width = 0, viewport_Height = 0, viewport_content = [],
                     viewport_YOffset = 0 \<rparr>,
       helpC = \<lparr> help_Width = 0, ShowAll = False \<rparr>,
       spinnerC = 0,
       searchC = \<lparr> textinput_value = [], textinput_focus = False,
                   Placeholder = ''Type to search repositories...'', CharLimit = 50,
                   textinput_cursor = 0 \<rparr>,
       currentView = repoListView, loading = True, showHelp = False, searchMode = False,
       notification = [], notifSuccess = False, width = 0, height = 0, ready = False,
       reposLoaded = False, eventsLoaded = False \<rparr>"

text \<open>Whether a command is, or batches, the timer that delivers \<open>ClearNotificationMsg\<close>.\<close>

fun armsClear :: "Cmd \<Rightarrow> bool" where
  "armsClear (Tick d msg) = (msg = ClearNotificationMsg)"
| "armsClear (Batch cmds) = list_ex armsClear cmds"
| "armsClear NoCmd = False"
| "armsClear Quit = False"
| "armsClear Blink = False"
| "armsClear (loadReposCmd u) = False"
| "armsClear (loadEventsCmd u) = False"
| "armsClear (cloneRepo r) = False"
| "armsClear (copyURL r) = False"
| "armsClear (openInBrowser r) = False"
| "armsClear (LibCmd c) = False"

text \<open>The model after a sequence of messages, one call of \<open>Update\<close> each.\<close>

fun deliver :: "env \<Rightarrow> Model \<Rightarrow> Msg list \<Rightarrow> Model" where
  "deliver E m [] = m"
| "deliver E m (msg # msgs) = deliver E (fst (Update E m msg)) msgs"

subsection \<open>Concrete inputs\<close>

text \<open>
  An environment for evaluating the program at concrete inputs: components that
  ignore what they are sent, and plain decimal formatting.
\<close>

definition idleEnv :: env where
  "idleEnv =
     \<lparr> list_Update = (\<lambda>msg l. (l, 0)),
       list_SelectedItem = (\<lambda>l. if list_cursor l < length (list_items l)
                                  then Some (list_items l ! list_cursor l) else None),
       table_Update = (\<lambda>msg t. (t, 0)),
       viewport_Update = (\<lambda>msg v. (v, 0)),
       spinner_Update = (\<lambda>msg sp. (sp, 0)),
       spinner_Tick = (\<lambda>sp. 0),
       textinput_Update = (\<lambda>msg t. (t, 0)),
       strings_ToLower = (\<lambda>s. s),
       formatNumber = fmt_d,
       formatDate = fmt_d,
       renderDetailedStats = (\<lambda>rs es st. []) \<rparr>"

definition mkPublicRepo :: "string \<Rightarrow> int \<Rightarrow> bool \<Rightarrow> PublicRepo" where
  "mkPublicRepo name stars private =
     \<lparr> PublicRepo_Name = name, FullName = ''octocat/'' @ name, PublicRepo_Description = [],
       PublicRepo_URL = ''https://github.com/octocat/'' @ name,
       PublicRepo_CloneURL = ''https://github.com/octocat/'' @ name @ ''.git'',
       Stars = stars, Forks = 0, Language = [], CreatedAt = 1, UpdatedAt = 2,
       Private = private \<rparr>"

text \<open>The model after both fetches of a fresh dashboard have completed well.\<close>

definition loadedModel :: Model where
  "loadedModel =
     fst (Update idleEnv
            (fst (Update idleEnv (NewModel ''octocat'')
                    (reposLoadedMsg [mkPublicRepo ''hello'' 5 False] None)))
            (eventsLoadedMsg [mkEvent ''PushEvent'' ''octocat/hello'' 3]
               (calculateStats [mkEvent ''PushEvent'' ''octocat/hello'' 3]) None))"

text \<open>Three events on two repositories.\<close>

definition aggEvents :: "GitHubEvent list" where
  "aggEvents = [mkEvent ''PushEvent'' ''o/a'' 5, mkEvent ''WatchEvent'' ''o/b'' 7,
                mkEvent ''PushEvent'' ''o/a'' 9]"

text \<open>
  A server with two pages: a full first page of 99 public records and a private one,
  and a second page of a private and a public record.
\<close>

definition pagedHttp :: "nat \<Rightarrow> roundTrip" where
  "pagedHttp page =
     (if page = 1 then Responds 200 (Decoded (replicate 99 (mkPublicRepo ''open'' 1 False) @
                                             [mkPublicRepo ''secret'' 2 True]))
      else if page = 2 then Responds 200 (Decoded [mkPublicRepo ''hidden'' 2 True,
                                                   mkPublicRepo ''hello'' 3 False])
      else DoFails)"

section \<open>Properties of the statistics\<close>

lemma countEvent_total: "TotalEvents (countEvent e s) = TotalEvents s + 1"
  by (simp add: countEvent_def Let_def)

lemma countEvent_buckets:
  "namedBuckets (countEvent e s) + OtherEvents (countEvent e s) =
     namedBuckets s + OtherEvents s + 1"
  by (simp add: countEvent_def Let_def namedBuckets_def)

lemma calculateStats_loop_total:
  "TotalEvents (calculateStats_loop es s) = TotalEvents s + int (length es)"
  by (induction es arbitrary: s) (simp_all add: countEvent_total)

lemma calculateStats_loop_buckets:
  "namedBuckets (calculateStats_loop es s) + OtherEvents (calculateStats_loop es s) =
     namedBuckets s + OtherEvents s + int (length es)"
  by (induction es arbitrary: s) (simp_all add: countEvent_buckets)

text \<open>
  C3, as stated, fails: an event whose type is none of the nine named kinds is counted
  in \<open>OtherEvents\<close>, so the nine named buckets sum to less than the total.
\<close>

theorem calculateStats_nine_buckets_counterexample:
  "namedBuckets (calculateStats [mkEvent ''MemberEvent'' ''o/r'' 1]) \<noteq>
     TotalEvents (calculateStats [mkEvent ''MemberEvent'' ''o/r'' 1])"
  by (simp add: calculateStats_def countEvent_def mkEvent_def zeroStats_def namedBuckets_def
      Let_def)

text \<open>
  C3 (amended): for every event list, \<open>TotalEvents\<close> of the computed statistics is the
  length of the list, and the nine named bucket counts together with \<open>OtherEvents\<close>
  sum to \<open>TotalEvents\<close>.
\<close>

theorem calculateStats_total_and_buckets:
  "TotalEvents (calculateStats E) = int (length E) \<and>
   namedBuckets (calculateStats E) + OtherEvents (calculateStats E) =
     TotalEvents (calculateStats E)"
proof -
  have z: "TotalEvents zeroStats = 0" "namedBuckets zeroStats + OtherEvents zeroStats = 0"
    by (simp_all add: zeroStats_def namedBuckets_def)
  show ?thesis
    unfolding calculateStats_def
    by (simp add: calculateStats_loop_total calculateStats_loop_buckets z)
qed

section \<open>Properties of the grade\<close>

lemma getGrade_score_spec: "scoreExact s \<Longrightarrow> getGrade_score s = Some (spec_weights s)"
  by (simp add: getGrade_score_def spec_weights_def float64_def scoreExact_def)

lemma spec_band_cases:
  "spec_bands ! length (filter (\<lambda>t. t \<le> q) spec_thresholds) =
     (if q \<ge> 100 then ''S+''
      else if q \<ge> 70 then ''S''
      else if q \<ge> 40 then ''A+''
      else if q \<ge> 25 then ''A''
      else if q \<ge> 15 then ''B+''
      else if q \<ge> 8 then ''B''
      else if q \<ge> 3 then ''C''
      else if q \<ge> 1 then ''D''
      else ''F'')"
  by (simp add: spec_bands_def spec_thresholds_def)

lemma calculateStats_scenario:
  "calculateStats scenarioEvents =
     zeroStats\<lparr>PushEvents := 3, IssueEvents := 2, WatchEvents := 1, TotalEvents := 6\<rparr>"
  by (simp add: calculateStats_def scenarioEvents_def countEvent_def mkEvent_def zeroStats_def
      Let_def numeral_3_eq_3 numeral_2_eq_2)

lemma countEvent_counters:
  "0 \<le> PushEvents s \<and> 0 \<le> PullRequestEvents s \<and> 0 \<le> CreateEvents s \<and>
   0 \<le> IssueEvents s \<and> 0 \<le> WatchEvents s \<and>
   PushEvents s \<le> n \<and> PullRequestEvents s \<le> n \<and> CreateEvents s \<le> n \<and>
   IssueEvents s \<le> n \<and> WatchEvents s \<le> n \<Longrightarrow>
   0 \<le> PushEvents (countEvent e s) \<and> 0 \<le> PullRequestEvents (countEvent e s) \<and>
   0 \<le> CreateEvents (countEvent e s) \<and> 0 \<le> IssueEvents (countEvent e s) \<and>
   0 \<le> WatchEvents (countEvent e s) \<and>
   PushEvents (countEvent e s) \<le> n + 1 \<and> PullRequestEvents (countEvent e s) \<le> n + 1 \<and>
   CreateEvents (countEvent e s) \<le> n + 1 \<and> IssueEvents (countEvent e s) \<le> n + 1 \<and>
   WatchEvents (countEvent e s) \<le> n + 1"
  by (simp add: countEvent_def Let_def)

lemma calculateStats_loop_counters:
  "0 \<le> PushEvents s \<and> 0 \<le> PullRequestEvents s \<and> 0 \<le> CreateEvents s \<and>
   0 \<le> IssueEvents s \<and> 0 \<le> WatchEvents s \<and>
   PushEvents s \<le> n \<and> PullRequestEvents s \<le> n \<and> CreateEvents s \<le> n \<and>
   IssueEvents s \<le> n \<and> WatchEvents s \<le> n \<Longrightarrow>
   0 \<le> PushEvents (calculateStats_loop es s) \<and> 0 \<le> PullRequestEvents (calculateStats_loop es s) \<and>
   0 \<le> CreateEvents (calculateStats_loop es s) \<and> 0 \<le> IssueEvents (calculateStats_loop es s) \<and>
   0 \<le> WatchEvents (calculateStats_loop es s) \<and>
   PushEvents (calculateStats_loop es s) \<le> n + int (length es) \<and>
   PullRequestEvents (calculateStats_loop es s) \<le> n + int (length es) \<and>
   CreateEvents (calculateStats_loop es s) \<le> n + int (length es) \<and>
   IssueEvents (calculateStats_loop es s) \<le> n + int (length es) \<and>
   WatchEvents (calculateStats_loop es s) \<le> n + int (length es)"
proof (induction es arbitrary: s n)
  case Nil
  then show ?case by simp
next
  case (Cons e es)
  have "n + int (length (e # es)) = (n + 1) + int (length es)" by simp
  then show ?case
    using Cons.IH[OF countEvent_counters[OF Cons.prems, of e]] by simp
qed

lemma calculateStats_scoreExact:
  assumes "length E < 2 ^ 48"
  shows "scoreExact (calculateStats E)"
proof -
  have "int (length E) < 2 ^ 48"
    using assms by (metis of_nat_less_iff of_nat_numeral of_nat_power)
  then show ?thesis
    using calculateStats_loop_counters[of zeroStats 0 E]
    unfolding calculateStats_def scoreExact_def
    by (simp add: zeroStats_def)
qed

text \<open>
  C4: for every statistics value whose five weighted counters are below \<open>2 ^ 48\<close> in
  magnitude (as are those of every event list shorter than \<open>2 ^ 48\<close>), \<open>getGrade\<close> is the
  grade of the specification: \<open>F\<close> when the total is zero, and otherwise the band that
  the weighted score (push 1.0, pull request 3.0, create 1.0, issue 1.5, watch 0.5)
  reaches among the thresholds 1, 3, 8, 15, 25, 40, 70, 100. A total of zero gives \<open>F\<close>
  whatever the counters. For three push, two issue and one watch events the total is
  6, the score 6.5 and the grade \<open>C\<close>.
\<close>

theorem getGrade_bands:
  "(scoreExact s \<longrightarrow> getGrade s = Some (spec_gradeFor s)) \<and>
   getGrade (s\<lparr>TotalEvents := 0\<rparr>) = Some ''F'' \<and>
   (length E < 2 ^ 48 \<longrightarrow> scoreExact (calculateStats E)) \<and>
   TotalEvents (calculateStats scenarioEvents) = 6 \<and>
   getGrade_score (calculateStats scenarioEvents) = Some (13 / 2) \<and>
   getGrade (calculateStats scenarioEvents) = Some ''C''"
proof -
  have a: "getGrade s = Some (spec_gradeFor s)" if "scoreExact s"
    unfolding getGrade_def spec_gradeFor_def spec_band_cases getGrade_score_spec[OF that]
    by simp
  have b: "getGrade (s\<lparr>TotalEvents := 0\<rparr>) = Some ''F''"
    by (simp add: getGrade_def)
  have c: "getGrade_score (calculateStats scenarioEvents) = Some (13 / 2)"
    by (simp add: calculateStats_scenario getGrade_score_def float64_def zeroStats_def)
  have d: "getGrade (calculateStats scenarioEvents) = Some ''C''"
    unfolding getGrade_def c by (simp add: calculateStats_scenario)
  show ?thesis
    using a b c d calculateStats_scoreExact[of E] by (simp add: calculateStats_scenario)
qed

theorem getGrade_bands_witness:
  "scoreExact (calculateStats scenarioEvents) \<and> length scenarioEvents < 2 ^ 48 \<and>
   getGrade (calculateStats scenarioEvents) = Some (spec_gradeFor (calculateStats scenarioEvents)) \<and>
   spec_gradeFor (calculateStats scenarioEvents) = ''C''"
proof -
  have len: "length scenarioEvents < 2 ^ 48"
    by (simp add: scenarioEvents_def)
  have ex: "scoreExact (calculateStats scenarioEvents)"
    by (simp add: calculateStats_scenario scoreExact_def zeroStats_def)
  show ?thesis
    using len ex getGrade_bands[of "calculateStats scenarioEvents" scenarioEvents]
    by auto
qed

section \<open>Properties of the view cycle\<close>

lemmas key_defs = key_Matches_def keys_Quit_def keys_Help_def keys_Tab_def keys_Search_def
  keys_Refresh_def keys_Clone_def keys_Copy_def keys_Open_def

lemmas load_defs = checkLoadingComplete_def updateRepoList_def updateActivityList_def
  updateRepoTable_def fmt_v_def Let_def

lemma currentView_helpers:
  "currentView (updateRepoList m) = currentView m"
  "currentView (updateActivityList m) = currentView m"
  "currentView (updateStatsView E m) = currentView m"
  "currentView (updateRepoTable E m) = currentView m"
  "currentView (updateTableSize m) = currentView m"
  "currentView (filterRepoList E q m) = currentView m"
  "currentView (checkLoadingComplete m) = currentView m"
  "currentView (fst (updateCurrentView E m msg)) = currentView m"
  "currentView (fst (handleSearchInput E m ty s)) = currentView m"
  by (simp_all add: updateRepoList_def updateActivityList_def updateStatsView_def
      updateRepoTable_def updateTableSize_def filterRepoList_def checkLoadingComplete_def
      updateCurrentView_def handleSearchInput_def Let_def split: viewMode.split)

lemma currentView_nextView: "currentView (nextView E m) = nextViewMode (currentView m)"
  by (simp add: nextView_def Let_def currentView_helpers split: viewMode.split)

lemma currentView_Update_key:
  "currentView (fst (Update E m (KeyMsg ty s))) =
     (if \<not> searchMode m \<and> s = ''tab'' then nextViewMode (currentView m) else currentView m)"
  by (simp add: currentView_helpers currentView_nextView key_defs Let_def split: option.split)

lemma currentView_Update:
  "currentView (fst (Update E m msg)) =
     (if \<not> searchMode m \<and> (\<exists>ty. msg = KeyMsg ty ''tab'')
      then nextViewMode (currentView m) else currentView m)"
proof (cases msg)
  case (KeyMsg ty s)
  then show ?thesis by (simp add: currentView_Update_key del: Update.simps)
qed (simp_all add: currentView_helpers Let_def)

text \<open>
  C8: the successor of a view is the cycle list, table, statistics, activity, list;
  \<open>nextView\<close> moves the current view to its successor; four applications starting
  from the list view pass through table, statistics and activity and end at the list
  view; and no message changes the current view except the tab key outside search
  mode, which moves it to its successor.
\<close>

theorem nextView_cycle:
  "nextViewMode repoListView = repoTableView \<and>
   nextViewMode repoTableView = statsView \<and>
   nextViewMode statsView = activityView \<and>
   nextViewMode activityView = repoListView \<and>
   currentView (nextView E m) = nextViewMode (currentView m) \<and>
   map currentView
     [nextView E (m\<lparr>currentView := repoListView\<rparr>),
      nextView E (nextView E (m\<lparr>currentView := repoListView\<rparr>)),
      nextView E (nextView E (nextView E (m\<lparr>currentView := repoListView\<rparr>))),
      nextView E (nextView E (nextView E (nextView E (m\<lparr>currentView := repoListView\<rparr>))))] =
     [repoTableView, statsView, activityView, repoListView] \<and>
   currentView (fst (Update E m msg)) =
     (if \<not> searchMode m \<and> (\<exists>ty. msg = KeyMsg ty ''tab'')
      then nextViewMode (currentView m) else currentView m)"
  by (simp add: currentView_nextView currentView_Update nextViewMode_def del: Update.simps)

section \<open>Properties of the notification\<close>

text \<open>
  C7: a \<open>NotificationMsg\<close> replaces the notification at once and hands the runtime a
  three second timer for \<open>ClearNotificationMsg\<close>; a \<open>ClearNotificationMsg\<close> empties the
  notification whatever it is. After a notification \<open>x\<close> and then a notification \<open>y\<close>,
  the timer of the first, when it fires, leaves the notification empty.
\<close>

theorem notification_replace_and_clear:
  "Update E m (NotificationMsg text ok) =
     (m\<lparr>notification := text, notifSuccess := ok\<rparr>, Tick 3 ClearNotificationMsg) \<and>
   Update E m ClearNotificationMsg = (m\<lparr>notification := []\<rparr>, NoCmd) \<and>
   (let first = Update E m (NotificationMsg ''x'' True);
        second = Update E (fst first) (NotificationMsg ''y'' False)
    in notification (fst first) = ''x'' \<and> notifSuccess (fst first) \<and>
       notification (fst second) = ''y'' \<and> \<not> notifSuccess (fst second) \<and>
       snd first = Tick 3 ClearNotificationMsg \<and>
       notification (fst (Update E (fst second) ClearNotificationMsg)) = [])"
  by (simp add: Let_def)

lemma notification_helpers:
  "notification (updateRepoList m) = notification m"
  "notification (updateActivityList m) = notification m"
  "notification (updateStatsView E m) = notification m"
  "notification (updateRepoTable E m) = notification m"
  "notification (updateTableSize m) = notification m"
  "notification (filterRepoList E q m) = notification m"
  "notification (checkLoadingComplete m) = notification m"
  "notification (nextView E m) = notification m"
  "notification (fst (updateCurrentView E m msg)) = notification m"
  "notification (fst (handleSearchInput E m ty s)) = notification m"
  by (simp_all add: updateRepoList_def updateActivityList_def updateStatsView_def
      updateRepoTable_def updateTableSize_def filterRepoList_def checkLoadingComplete_def
      nextView_def updateCurrentView_def handleSearchInput_def Let_def split: viewMode.split)

lemma armsClear_helpers:
  "\<not> armsClear (snd (updateCurrentView E m msg))"
  "\<not> armsClear (snd (handleSearchInput E m ty s))"
  "\<not> armsClear (loadData m)"
  by (simp_all add: updateCurrentView_def handleSearchInput_def loadData_def Let_def
      split: viewMode.split)

lemma armsClear_Update_key: "\<not> armsClear (snd (Update E m (KeyMsg ty s)))"
  by (simp add: armsClear_helpers key_defs Let_def split: option.split)

lemma armsClear_Update:
  "armsClear (snd (Update E m msg)) = (\<exists>text ok. msg = NotificationMsg text ok)"
proof (cases msg)
  case (KeyMsg ty s)
  then show ?thesis by (simp add: armsClear_Update_key del: Update.simps)
qed (simp_all add: Let_def)

lemma notification_Update_key:
  "notification (fst (Update E m (KeyMsg ty s))) =
     (if \<not> searchMode m \<and> s = ''r'' then refreshArrows @ '' Refreshing data...''
      else notification m)"
  by (simp add: notification_helpers key_defs Let_def split: option.split)

lemma notification_Update:
  "notification (fst (Update E m msg)) =
     (case msg of
        NotificationMsg text ok \<Rightarrow> text
      | ClearNotificationMsg \<Rightarrow> []
      | reposLoadedMsg rs (Some e) \<Rightarrow> crossMark @ '' Error loading repositories: '' @ e
      | eventsLoadedMsg es st (Some e) \<Rightarrow> crossMark @ '' Error loading activity: '' @ e
      | KeyMsg ty s \<Rightarrow> (if \<not> searchMode m \<and> s = ''r''
                        then refreshArrows @ '' Refreshing data...'' else notification m)
      | _ \<Rightarrow> notification m)"
proof (cases msg)
  case (KeyMsg ty s)
  then show ?thesis by (simp add: notification_Update_key del: Update.simps)
next
  case (reposLoadedMsg rs err)
  then show ?thesis
    by (cases err) (simp_all add: Let_def notification_helpers fmt_v_def)
next
  case (eventsLoadedMsg es st err)
  then show ?thesis
    by (cases err) (simp_all add: Let_def notification_helpers fmt_v_def)
qed (simp_all add: Let_def notification_helpers)

text \<open>
  C10: the command returned for a failed repository fetch, for a failed activity fetch
  and for the refresh key is not, and does not batch, the clearing timer; of all
  messages only a \<open>NotificationMsg\<close> makes \<open>Update\<close> return that timer, which runs three
  seconds. The notification after a message is the one before it unless the message is
  a \<open>NotificationMsg\<close>, a \<open>ClearNotificationMsg\<close>, a failed fetch or the refresh key
  outside search mode: until one of these arrives, a fetch-failure notification stays.
\<close>

theorem only_NotificationMsg_arms_clear:
  "\<not> armsClear (snd (Update E m (reposLoadedMsg rs (Some e)))) \<and>
   \<not> armsClear (snd (Update E m (eventsLoadedMsg es st (Some e)))) \<and>
   \<not> armsClear (snd (Update E m (KeyMsg ty ''r''))) \<and>
   armsClear (snd (Update E m msg)) = (\<exists>text ok. msg = NotificationMsg text ok) \<and>
   snd (Update E m (NotificationMsg text ok)) = Tick 3 ClearNotificationMsg \<and>
   notification (fst (Update E m msg)) =
     (case msg of
        NotificationMsg text ok \<Rightarrow> text
      | ClearNotificationMsg \<Rightarrow> []
      | reposLoadedMsg rs (Some e) \<Rightarrow> crossMark @ '' Error loading repositories: '' @ e
      | eventsLoadedMsg es st (Some e) \<Rightarrow> crossMark @ '' Error loading activity: '' @ e
      | KeyMsg ty s \<Rightarrow> (if \<not> searchMode m \<and> s = ''r''
                        then refreshArrows @ '' Refreshing data...'' else notification m)
      | _ \<Rightarrow> notification m)"
proof -
  have a: "armsClear (snd (Update E m msg)) = (\<exists>text ok. msg = NotificationMsg text ok)"
    by (rule armsClear_Update)
  have b: "\<not> armsClear (snd (Update E m (reposLoadedMsg rs (Some e))))"
    "\<not> armsClear (snd (Update E m (eventsLoadedMsg es st (Some e))))"
    "\<not> armsClear (snd (Update E m (KeyMsg ty ''r'')))"
    by (simp_all add: armsClear_Update del: Update.simps)
  have c: "snd (Update E m (NotificationMsg text ok)) = Tick 3 ClearNotificationMsg"
    by simp
  show ?thesis
    using a b c notification_Update[of E m msg] by blast
qed

section \<open>Properties of the loading state\<close>

lemma Update_repos_error:
  "Update E m (reposLoadedMsg rs (Some e)) =
     (m\<lparr>reposLoaded := True,
        notification := crossMark @ '' Error loading repositories: '' @ e,
        notifSuccess := False,
        loading := (loading m \<and> \<not> eventsLoaded m),
        ready := (ready m \<or> eventsLoaded m)\<rparr>, NoCmd)"
  by (cases "eventsLoaded m") (simp_all add: Let_def checkLoadingComplete_def fmt_v_def)

lemma Update_events_error:
  "Update E m (eventsLoadedMsg es st (Some e)) =
     (m\<lparr>eventsLoaded := True,
        notification := crossMark @ '' Error loading activity: '' @ e,
        notifSuccess := False,
        loading := (loading m \<and> \<not> reposLoaded m),
        ready := (ready m \<or> reposLoaded m)\<rparr>, NoCmd)"
  by (cases "reposLoaded m") (simp_all add: Let_def checkLoadingComplete_def fmt_v_def)

text \<open>
  C9: a \<open>reposLoadedMsg\<close> with an error leaves the model as it was except for
  \<open>reposLoaded\<close>, the two notification fields, \<open>loading\<close> and \<open>ready\<close>; in particular
  \<open>publicRepos\<close> is unchanged. An \<open>eventsLoadedMsg\<close> with an error does the same with
  \<open>eventsLoaded\<close>; in particular \<open>events\<close> and \<open>stats\<close> are unchanged.
\<close>

theorem fetch_error_frame:
  "fst (Update E m (reposLoadedMsg rs (Some e))) =
     m\<lparr>reposLoaded := True,
       notification := crossMark @ '' Error loading repositories: '' @ e,
       notifSuccess := False,
       loading := (loading m \<and> \<not> eventsLoaded m),
       ready := (ready m \<or> eventsLoaded m)\<rparr> \<and>
   publicRepos (fst (Update E m (reposLoadedMsg rs (Some e)))) = publicRepos m \<and>
   fst (Update E m (eventsLoadedMsg es st (Some e))) =
     m\<lparr>eventsLoaded := True,
       notification := crossMark @ '' Error loading activity: '' @ e,
       notifSuccess := False,
       loading := (loading m \<and> \<not> reposLoaded m),
       ready := (ready m \<or> reposLoaded m)\<rparr> \<and>
   events (fst (Update E m (eventsLoadedMsg es st (Some e)))) = events m \<and>
   stats (fst (Update E m (eventsLoadedMsg es st (Some e)))) = stats m"
  by (simp add: Update_repos_error Update_events_error del: Update.simps)

lemma ready_helpers:
  "ready (updateRepoList m) = ready m"
  "ready (updateActivityList m) = ready m"
  "ready (updateStatsView E m) = ready m"
  "ready (updateRepoTable E m) = ready m"
  "ready (updateTableSize m) = ready m"
  "ready (filterRepoList E q m) = ready m"
  "ready (nextView E m) = ready m"
  "ready (fst (updateCurrentView E m msg)) = ready m"
  "ready (fst (handleSearchInput E m ty s)) = ready m"
  by (simp_all add: updateRepoList_def updateActivityList_def updateStatsView_def
      updateRepoTable_def updateTableSize_def filterRepoList_def nextView_def
      updateCurrentView_def handleSearchInput_def Let_def split: viewMode.split)

lemma ready_checkLoadingComplete:
  "ready (checkLoadingComplete m) = (ready m \<or> reposLoaded m \<and> eventsLoaded m)"
  by (auto simp add: checkLoadingComplete_def)

lemma ready_Update_key: "ready (fst (Update E m (KeyMsg ty s))) = ready m"
  by (simp add: ready_helpers key_defs Let_def split: option.split)

lemma ready_Update_mono: "ready m \<Longrightarrow> ready (fst (Update E m msg))"
proof (cases msg)
  case (KeyMsg ty s)
  then show "ready m \<Longrightarrow> ?thesis" by (simp add: ready_Update_key del: Update.simps)
qed (simp_all add: Let_def ready_helpers ready_checkLoadingComplete)

lemma Update_refresh:
  "\<not> searchMode m \<Longrightarrow> Update E m (KeyMsg ty ''r'') =
     (m\<lparr>loading := True, reposLoaded := False, eventsLoaded := False,
        notification := refreshArrows @ '' Refreshing data...'', notifSuccess := True\<rparr>,
      Batch [loadReposCmd (username m), loadEventsCmd (username m)])"
  by (simp add: key_defs Let_def loadData_def)

lemma loadedModel_flags: "ready loadedModel" "\<not> searchMode loadedModel"
  by (simp_all add: loadedModel_def NewModel_def load_defs)

text \<open>
  C2, as stated, fails: the refresh key resets the two loaded flags but not \<open>ready\<close>.
  On the model whose two fetches have completed, \<open>ready\<close> is still true after the key.
\<close>

theorem refresh_keeps_ready_counterexample:
  "ready loadedModel \<and>
   \<not> (reposLoaded (fst (Update idleEnv loadedModel (KeyMsg KeyRunes ''r''))) = False \<and>
      eventsLoaded (fst (Update idleEnv loadedModel (KeyMsg KeyRunes ''r''))) = False \<and>
      ready (fst (Update idleEnv loadedModel (KeyMsg KeyRunes ''r''))) = False)"
  by (simp add: loadedModel_flags Update_refresh del: Update.simps)

text \<open>
  C2 (amended): outside search mode the refresh key sets \<open>reposLoaded\<close> and
  \<open>eventsLoaded\<close> to false and \<open>loading\<close> to true, starts both fetches again and leaves
  \<open>ready\<close> as it was; and no message at all resets \<open>ready\<close>: once true it stays true.
\<close>

theorem refresh_resets_loaded_flags:
  "(\<not> searchMode m \<longrightarrow>
      reposLoaded (fst (Update E m (KeyMsg ty ''r''))) = False \<and>
      eventsLoaded (fst (Update E m (KeyMsg ty ''r''))) = False \<and>
      loading (fst (Update E m (KeyMsg ty ''r''))) = True \<and>
      ready (fst (Update E m (KeyMsg ty ''r''))) = ready m \<and>
      snd (Update E m (KeyMsg ty ''r'')) = loadData m) \<and>
   (ready m \<longrightarrow> ready (fst (Update E m msg)))"
  using ready_Update_mono[of m E msg]
  by (simp add: Update_refresh loadData_def del: Update.simps)

theorem refresh_resets_loaded_flags_witness:
  "\<not> searchMode loadedModel \<and> ready loadedModel \<and>
   reposLoaded (fst (Update idleEnv loadedModel (KeyMsg KeyRunes ''r''))) = False \<and>
   eventsLoaded (fst (Update idleEnv loadedModel (KeyMsg KeyRunes ''r''))) = False \<and>
   loading (fst (Update idleEnv loadedModel (KeyMsg KeyRunes ''r''))) = True \<and>
   ready (fst (Update idleEnv loadedModel (KeyMsg KeyRunes ''r'')))"
  using refresh_resets_loaded_flags[of loadedModel idleEnv KeyRunes "KeyMsg KeyRunes ''r''"]
  by (simp add: loadedModel_flags del: Update.simps)

lemma ready_after_first:
  "\<not> reposLoaded m \<Longrightarrow> \<not> eventsLoaded m \<Longrightarrow> \<not> ready m \<Longrightarrow>
   \<not> ready (deliver E m [reposLoadedMsg rs ea]) \<and>
   \<not> ready (deliver E m [eventsLoadedMsg es st eb])"
  by (simp add: load_defs)

lemma ready_after_second:
  "ready (deliver E m [reposLoadedMsg rs ea, eventsLoadedMsg es st eb]) \<and>
   ready (deliver E m [eventsLoadedMsg es st eb, reposLoadedMsg rs ea])"
  by (simp add: load_defs)

lemma one_error_orders_equal:
  "deliver E m [reposLoadedMsg rs (Some x), eventsLoadedMsg es st None] =
   deliver E m [eventsLoadedMsg es st None, reposLoadedMsg rs (Some x)]"
  "deliver E m [reposLoadedMsg rs None, eventsLoadedMsg es st (Some y)] =
   deliver E m [eventsLoadedMsg es st (Some y), reposLoadedMsg rs None]"
  by (simp_all add: load_defs)

lemma two_errors_orders:
  "(deliver E m [reposLoadedMsg rs (Some x), eventsLoadedMsg es st (Some y)])
      \<lparr>notification := n\<rparr> =
   (deliver E m [eventsLoadedMsg es st (Some y), reposLoadedMsg rs (Some x)])
      \<lparr>notification := n\<rparr>"
  "notification (deliver E m [reposLoadedMsg rs (Some x), eventsLoadedMsg es st (Some y)]) =
     crossMark @ '' Error loading activity: '' @ y"
  "notification (deliver E m [eventsLoadedMsg es st (Some y), reposLoadedMsg rs (Some x)]) =
     crossMark @ '' Error loading repositories: '' @ x"
  by (simp_all add: load_defs)

lemma two_payloads_orders:
  "(deliver E m [reposLoadedMsg rs None, eventsLoadedMsg es st None])\<lparr>listC := l\<rparr> =
   (deliver E m [eventsLoadedMsg es st None, reposLoadedMsg rs None])\<lparr>listC := l\<rparr>"
  by (simp add: load_defs)

text \<open>
  C1, as stated, fails in its last part: the two delivery orders do not always end in
  the same model. The notification is one slot that every writer overwrites; when both
  fetches fail it holds the error text of the message delivered last.
\<close>

theorem delivery_orders_differ_counterexample:
  "deliver idleEnv (NewModel ''octocat'')
     [reposLoadedMsg [] (Some ''timeout''), eventsLoadedMsg [] zeroStats (Some ''timeout'')] \<noteq>
   deliver idleEnv (NewModel ''octocat'')
     [eventsLoadedMsg [] zeroStats (Some ''timeout''), reposLoadedMsg [] (Some ''timeout'')]"
proof
  let ?m = "NewModel ''octocat''"
  let ?a = "reposLoadedMsg [] (Some ''timeout'')"
  let ?b = "eventsLoadedMsg [] zeroStats (Some ''timeout'')"
  assume "deliver idleEnv ?m [?a, ?b] = deliver idleEnv ?m [?b, ?a]"
  then have "notification (deliver idleEnv ?m [?a, ?b]) = notification (deliver idleEnv ?m [?b, ?a])"
    by (rule arg_cong)
  then show False
    unfolding two_errors_orders by simp
qed

text \<open>
  C1 (amended): from a model in which neither fetch has completed and \<open>ready\<close> is
  false, \<open>ready\<close> is false after either completion message alone and true after both,
  in either order and whether each carries a payload or an error. When exactly one
  message carries an error, the two orders end in the same model. When both carry
  errors, the two final models are the same except for the notification text, which
  is the error text of the message delivered last. When both carry payloads, the two
  final models agree on every field other than the list component.
\<close>

theorem ready_on_second_completion:
  assumes "\<not> reposLoaded m" and "\<not> eventsLoaded m" and "\<not> ready m"
  shows
    "\<not> ready (deliver E m [reposLoadedMsg rs ea]) \<and>
     \<not> ready (deliver E m [eventsLoadedMsg es st eb]) \<and>
     ready (deliver E m [reposLoadedMsg rs ea, eventsLoadedMsg es st eb]) \<and>
     ready (deliver E m [eventsLoadedMsg es st eb, reposLoadedMsg rs ea]) \<and>
     deliver E m [reposLoadedMsg rs (Some x), eventsLoadedMsg es st None] =
       deliver E m [eventsLoadedMsg es st None, reposLoadedMsg rs (Some x)] \<and>
     deliver E m [reposLoadedMsg rs None, eventsLoadedMsg es st (Some y)] =
       deliver E m [eventsLoadedMsg es st (Some y), reposLoadedMsg rs None] \<and>
     (deliver E m [reposLoadedMsg rs (Some x), eventsLoadedMsg es st (Some y)])
        \<lparr>notification := n\<rparr> =
     (deliver E m [eventsLoadedMsg es st (Some y), reposLoadedMsg rs (Some x)])
        \<lparr>notification := n\<rparr> \<and>
     notification (deliver E m [reposLoadedMsg rs (Some x), eventsLoadedMsg es st (Some y)]) =
       crossMark @ '' Error loading activity: '' @ y \<and>
     notification (deliver E m [eventsLoadedMsg es st (Some y), reposLoadedMsg rs (Some x)]) =
       crossMark @ '' Error loading repositories: '' @ x \<and>
     (deliver E m [reposLoadedMsg rs None, eventsLoadedMsg es st None])\<lparr>listC := l\<rparr> =
     (deliver E m [eventsLoadedMsg es st None, reposLoadedMsg rs None])\<lparr>listC := l\<rparr>"
proof -
  have first: "\<not> ready (deliver E m [reposLoadedMsg rs ea]) \<and>
      \<not> ready (deliver E m [eventsLoadedMsg es st eb])"
    using assms by (rule ready_after_first)
  show ?thesis
    using first ready_after_second one_error_orders_equal two_errors_orders two_payloads_orders
    by (intro conjI) blast+
qed

theorem ready_on_second_completion_witness:
  "\<not> reposLoaded (NewModel ''octocat'') \<and> \<not> eventsLoaded (NewModel ''octocat'') \<and>
   \<not> ready (NewModel ''octocat'') \<and>
   \<not> ready (deliver idleEnv (NewModel ''octocat'') [reposLoadedMsg [] (Some ''timeout'')]) \<and>
   \<not> ready (deliver idleEnv (NewModel ''octocat'') [eventsLoadedMsg [] zeroStats None]) \<and>
   ready (deliver idleEnv (NewModel ''octocat'')
            [reposLoadedMsg [] (Some ''timeout''), eventsLoadedMsg [] zeroStats None]) \<and>
   ready (deliver idleEnv (NewModel ''octocat'')
            [eventsLoadedMsg [] zeroStats None, reposLoadedMsg [] (Some ''timeout'')])"
proof -
  have h: "\<not> reposLoaded (NewModel ''octocat'')" "\<not> eventsLoaded (NewModel ''octocat'')"
    "\<not> ready (NewModel ''octocat'')"
    by (simp_all add: NewModel_def)
  show ?thesis
    using h ready_on_second_completion[OF h, where E = idleEnv and rs = "[]"
        and ea = "Some ''timeout''" and es = "[]" and st = zeroStats and eb = None]
    by blast
qed

section \<open>Properties of the repository aggregation\<close>

lemma countOf_countRepo:
  "countOf (fst (countRepo e maps)) name =
     countOf (fst maps) name +
       (if name \<noteq> [] \<and> Repo_Name (Event_Repo e) = name then 1 else 0)"
  by (simp add: countRepo_def countOf_def Let_def)

lemma countOf_countRepos:
  "countOf (fst (countRepos es maps)) name =
     countOf (fst maps) name + (if name = [] then 0 else int (length (eventsOf name es)))"
  by (induction es arbitrary: maps) (simp_all add: countOf_countRepo eventsOf_def)

lemma lastActOf_countRepo:
  "lastActOf (snd (countRepo e maps)) name =
     (if name \<noteq> [] \<and> Repo_Name (Event_Repo e) = name
      then max (lastActOf (snd maps) name) (Event_CreatedAt e)
      else lastActOf (snd maps) name)"
  by (simp add: countRepo_def lastActOf_def Let_def After_def max_def)

lemma lastActOf_countRepos:
  "name \<noteq> [] \<Longrightarrow> lastActOf (snd (countRepos es maps)) name =
     Max (insert (lastActOf (snd maps) name) (Event_CreatedAt ` set (eventsOf name es)))"
proof (induction es arbitrary: maps)
  case Nil
  then show ?case by (simp add: eventsOf_def)
next
  case (Cons e es)
  show ?case
  proof (cases "Repo_Name (Event_Repo e) = name")
    case True
    have fin: "finite (Event_CreatedAt ` set (eventsOf name es))" by simp
    have "lastActOf (snd (countRepos (e # es) maps)) name =
        Max (insert (max (lastActOf (snd maps) name) (Event_CreatedAt e))
               (Event_CreatedAt ` set (eventsOf name es)))"
      using Cons.IH[OF Cons.prems, of "countRepo e maps"] True Cons.prems
      by (simp add: lastActOf_countRepo)
    also have "\<dots> = Max (insert (lastActOf (snd maps) name)
               (insert (Event_CreatedAt e) (Event_CreatedAt ` set (eventsOf name es))))"
      using fin by (cases "Event_CreatedAt ` set (eventsOf name es) = {}") (simp_all add: max.assoc)
    finally show ?thesis using True by (simp add: eventsOf_def)
  next
    case False
    then show ?thesis
      using Cons.IH[OF Cons.prems, of "countRepo e maps"]
      by (simp add: lastActOf_countRepo eventsOf_def)
  qed
qed

lemma dom_countRepo:
  "dom (fst (countRepo e maps)) =
     dom (fst maps) \<union> (if Repo_Name (Event_Repo e) = [] then {} else {Repo_Name (Event_Repo e)})"
  by (simp add: countRepo_def Let_def)

lemma dom_countRepos:
  "dom (fst (countRepos es maps)) =
     dom (fst maps) \<union> {name. name \<noteq> [] \<and> eventsOf name es \<noteq> []}"
proof (induction es arbitrary: maps)
  case Nil
  then show ?case by (simp add: eventsOf_def)
next
  case (Cons e es)
  show ?case
    unfolding countRepos.simps Cons.IH dom_countRepo
    by (auto simp add: eventsOf_def)
qed




lemma length_bubble_inner: "length (bubble_inner j b xs) = length xs"
proof (induction j b xs rule: bubble_inner.induct)
  case (1 j b xs)
  show ?case
  proof (cases "j < b")
    case True
    then show ?thesis
      using "1.IH" by (subst bubble_inner.simps) simp
  next
    case False
    then show ?thesis by (subst bubble_inner.simps) simp
  qed
qed

lemma mset_bubble_inner: "b < length xs \<Longrightarrow> mset (bubble_inner j b xs) = mset xs"
proof (induction j b xs rule: bubble_inner.induct)
  case (1 j b xs)
  show ?case
  proof (cases "j < b")
    case True
    let ?xs' = "if Count (xs ! j) < Count (xs ! (j + 1))
                then xs[j := xs ! (j + 1), j + 1 := xs ! j] else xs"
    have len: "length ?xs' = length xs" by simp
    have ms: "mset ?xs' = mset xs"
      using True "1.prems" by (simp add: mset_swap)
    have "mset (bubble_inner (j + 1) b ?xs') = mset ?xs'"
      using "1.IH"[OF True] "1.prems" len by simp
    then show ?thesis
      using True ms by (subst bubble_inner.simps) simp
  next
    case False
    then show ?thesis by (subst bubble_inner.simps) simp
  qed
qed

lemma nth_bubble_inner_above:
  "b < k \<Longrightarrow> bubble_inner j b xs ! k = xs ! k"
proof (induction j b xs rule: bubble_inner.induct)
  case (1 j b xs)
  show ?case
  proof (cases "j < b")
    case True
    let ?xs' = "if Count (xs ! j) < Count (xs ! (j + 1))
                then xs[j := xs ! (j + 1), j + 1 := xs ! j] else xs"
    have "?xs' ! k = xs ! k"
      using True "1.prems" by simp
    moreover have "bubble_inner (j + 1) b ?xs' ! k = ?xs' ! k"
      using "1.IH"[OF True] "1.prems" by simp
    ultimately show ?thesis
      using True by (subst bubble_inner.simps) simp
  next
    case False
    then show ?thesis by (subst bubble_inner.simps) simp
  qed
qed

lemma bubble_inner_least:
  "\<lbrakk>j \<le> b; b < length xs; \<forall>p\<le>j. Count (xs ! j) \<le> Count (xs ! p)\<rbrakk>
   \<Longrightarrow> \<forall>p\<le>b. Count (bubble_inner j b xs ! b) \<le> Count (bubble_inner j b xs ! p)"
proof (induction j b xs rule: bubble_inner.induct)
  case (1 j b xs)
  show ?case
  proof (cases "j < b")
    case True
    let ?xs' = "if Count (xs ! j) < Count (xs ! (j + 1))
                then xs[j := xs ! (j + 1), j + 1 := xs ! j] else xs"
    have len: "length ?xs' = length xs" by simp
    have inv: "\<forall>p\<le>j + 1. Count (?xs' ! (j + 1)) \<le> Count (?xs' ! p)"
    proof (intro allI impI)
      fix p assume p: "p \<le> j + 1"
      have jl: "j < length xs" "j + 1 < length xs"
        using True "1.prems"(2) by simp_all
      show "Count (?xs' ! (j + 1)) \<le> Count (?xs' ! p)"
      proof (cases "Count (xs ! j) < Count (xs ! (j + 1))")
        case sw: True
        consider "p = j + 1" | "p = j" | "p < j" using p by linarith
        then show ?thesis
        proof cases
          case 1 then show ?thesis by simp
        next
          case 2 then show ?thesis using sw jl by simp
        next
          case 3 then show ?thesis using sw jl "1.prems"(3) by simp
        qed
      next
        case nsw: False
        consider "p = j + 1" | "p \<le> j" using p by linarith
        then show ?thesis
        proof cases
          case 1 then show ?thesis by simp
        next
          case 2
          have "Count (xs ! (j + 1)) \<le> Count (xs ! j)" using nsw by simp
          also have "\<dots> \<le> Count (xs ! p)" using "1.prems"(3) 2 by simp
          finally show ?thesis using nsw by simp
        qed
      qed
    qed
    have "\<forall>p\<le>b. Count (bubble_inner (j + 1) b ?xs' ! b) \<le> Count (bubble_inner (j + 1) b ?xs' ! p)"
      using "1.IH"[OF True] True "1.prems"(2) len inv by simp
    then show ?thesis
      using True by (subst (1 2) bubble_inner.simps) simp
  next
    case False
    then have "j = b" using "1.prems"(1) by simp
    then show ?thesis
      using "1.prems"(3) by (subst (1 2) bubble_inner.simps) simp
  qed
qed

lemma drop_bubble_inner: "drop (Suc b) (bubble_inner j b xs) = drop (Suc b) xs"
  by (rule nth_equalityI) (simp_all add: length_bubble_inner nth_bubble_inner_above)

lemma set_take_bubble_inner:
  assumes "b < length xs"
  shows "set (take (Suc b) (bubble_inner j b xs)) = set (take (Suc b) xs)"
proof -
  let ?r = "bubble_inner j b xs"
  have "mset (take (Suc b) ?r) + mset (drop (Suc b) ?r) = mset (take (Suc b) xs) + mset (drop (Suc b) xs)"
    using mset_bubble_inner[OF assms, of j]
    by (metis append_take_drop_id mset_append)
  then have "mset (take (Suc b) ?r) = mset (take (Suc b) xs)"
    by (simp add: drop_bubble_inner)
  then show ?thesis by (rule mset_eq_setD)
qed

lemma settled_step:
  assumes i: "Suc i < length xs" and inv: "settled i xs"
  shows "settled (Suc i) (bubble_inner 0 (length xs - i - 1) xs)"
proof -
  let ?b = "length xs - i - 1"
  let ?r = "bubble_inner 0 ?b xs"
  have b: "?b < length xs" using i by simp
  have len: "length ?r = length xs" by (rule length_bubble_inner)
  have least: "\<forall>p\<le>?b. Count (?r ! ?b) \<le> Count (?r ! p)"
    using bubble_inner_least[of 0 ?b xs] b by simp
  show ?thesis
    unfolding settled_def len
  proof (intro allI impI)
    fix p q assume pq: "p < q" and q: "q < length xs" and low: "length xs - Suc i \<le> q"
    show "Count (?r ! q) \<le> Count (?r ! p)"
    proof (cases "q = ?b")
      case True
      then show ?thesis using least pq by simp
    next
      case False
      then have above: "?b < q" using low by simp
      then have rq: "?r ! q = xs ! q" by (rule nth_bubble_inner_above)
      show ?thesis
      proof (cases "?b < p")
        case True
        then have "?r ! p = xs ! p" by (rule nth_bubble_inner_above)
        moreover have "length xs - i \<le> q"
          using above i by simp
        ultimately show ?thesis
          using rq inv pq q unfolding settled_def by simp
      next
        case False
        then have "p < Suc ?b" by simp
        then have "p < length (take (Suc ?b) ?r)" "take (Suc ?b) ?r ! p = ?r ! p"
          using len b by simp_all
        then have "?r ! p \<in> set (take (Suc ?b) ?r)"
          by (metis nth_mem)
        then have "?r ! p \<in> set (take (Suc ?b) xs)"
          using set_take_bubble_inner[OF b] by simp
        then obtain p' where p': "p' < Suc ?b" "p' < length xs" "xs ! p' = ?r ! p"
          by (auto simp add: in_set_conv_nth)
        have "p' < q" "length xs - i \<le> q"
          using p' above i by simp_all
        then have "Count (xs ! q) \<le> Count (xs ! p')"
          using inv q unfolding settled_def by blast
        then show ?thesis using rq p' by simp
      qed
    qed
  qed
qed

lemma length_bubble_outer: "len = length xs \<Longrightarrow> length (bubble_outer len i xs) = length xs"
proof (induction len i xs rule: bubble_outer.induct)
  case (1 len i xs)
  show ?case
  proof (cases "int i < int len - 1")
    case True
    then show ?thesis
      using "1.IH"[OF True] "1.prems"
      by (subst bubble_outer.simps) (simp add: length_bubble_inner)
  next
    case False
    then show ?thesis by (subst bubble_outer.simps) simp
  qed
qed

lemma mset_bubble_outer: "len = length xs \<Longrightarrow> mset (bubble_outer len i xs) = mset xs"
proof (induction len i xs rule: bubble_outer.induct)
  case (1 len i xs)
  show ?case
  proof (cases "int i < int len - 1")
    case True
    then have "len - i - 1 < length xs" using "1.prems" by simp
    then have "mset (bubble_inner 0 (len - i - 1) xs) = mset xs"
      by (rule mset_bubble_inner)
    then show ?thesis
      using "1.IH"[OF True] "1.prems" True
      by (subst bubble_outer.simps) (simp add: length_bubble_inner)
  next
    case False
    then show ?thesis by (subst bubble_outer.simps) simp
  qed
qed

lemma sorted_bubble_outer:
  "len = length xs \<Longrightarrow> settled i xs \<Longrightarrow> sortedByCount (bubble_outer len i xs)"
proof (induction len i xs rule: bubble_outer.induct)
  case (1 len i xs)
  show ?case
  proof (cases "int i < int len - 1")
    case True
    then have i: "Suc i < length xs" using "1.prems"(1) by simp
    have "settled (Suc i) (bubble_inner 0 (len - i - 1) xs)"
      using settled_step[OF i "1.prems"(2)] "1.prems"(1) by simp
    then have "sortedByCount (bubble_outer len (i + 1) (bubble_inner 0 (len - i - 1) xs))"
      using "1.IH"[OF True] "1.prems"(1) by (simp add: length_bubble_inner)
    then show ?thesis
      using True by (subst bubble_outer.simps) simp
  next
    case False
    have "sortedByCount xs"
      unfolding sortedByCount_def sorted_wrt_iff_nth_less
    proof (intro allI impI)
      fix p q assume pq: "p < q" "q < length xs"
      then have "length xs - i \<le> q"
        using False "1.prems"(1) by simp
      then show "Count (xs ! q) \<le> Count (xs ! p)"
        using "1.prems"(2) pq unfolding settled_def by blast
    qed
    then show ?thesis
      using False by (subst bubble_outer.simps) simp
  qed
qed

lemma settled_0: "settled 0 xs"
  by (simp add: settled_def)

lemma getTopRepos_entries:
  assumes "rangeOrder order E" and "r \<in> set (getTopRepos order E)"
  shows "Name r \<in> set order \<and> Name r \<noteq> [] \<and>
         r = mkRepoInfo (countRepos E (Map.empty, Map.empty)) (Name r)"
proof -
  let ?maps = "countRepos E (Map.empty, Map.empty)"
  have "set (getTopRepos order E) = set (map (mkRepoInfo ?maps) order)"
    unfolding getTopRepos_def Let_def
    by (rule mset_eq_setD) (simp add: mset_bubble_outer)
  then obtain name where name: "name \<in> set order" "r = mkRepoInfo ?maps name"
    using assms(2) by auto
  have "name \<in> dom (fst ?maps)"
    using assms(1) name(1) by (simp add: rangeOrder_def)
  then have "name \<noteq> []"
    by (simp add: dom_countRepos)
  then show ?thesis
    using name by (simp add: mkRepoInfo_def)
qed

text \<open>
  What holds for every event list and every order in which the runtime visits the
  map: each entry's count is the number of events that name its repository, its last
  activity is the latest of the zero \<open>Time\<close> and the timestamps of those events (the
  latest timestamp as soon as one of them is not before the zero \<open>Time\<close>), the
  entries are sorted by count, largest first, and their names are the keys of the map.
\<close>

lemma getTopRepos_counts_sorted:
  assumes "rangeOrder order E"
  shows "(\<forall>r \<in> set (getTopRepos order E).
            Count r = int (length (eventsOf (Name r) E)) \<and>
            Count r \<le> int (length (eventsOf (Name r) E)) \<and>
            LastActivity r = Max (insert zeroTime (Event_CreatedAt ` set (eventsOf (Name r) E))) \<and>
            ((\<exists>e \<in> set (eventsOf (Name r) E). zeroTime \<le> Event_CreatedAt e) \<longrightarrow>
               LastActivity r = Max (Event_CreatedAt ` set (eventsOf (Name r) E)))) \<and>
         sortedByCount (getTopRepos order E) \<and>
         mset (map Name (getTopRepos order E)) = mset order"
proof (intro conjI ballI)
  fix r assume r: "r \<in> set (getTopRepos order E)"
  let ?maps = "countRepos E (Map.empty, Map.empty)"
  let ?T = "Event_CreatedAt ` set (eventsOf (Name r) E)"
  have e: "Name r \<noteq> []" "r = mkRepoInfo ?maps (Name r)"
    using getTopRepos_entries[OF assms r] by simp_all
  have "Count r = countOf (fst ?maps) (Name r)"
    by (subst e(2)) (simp add: mkRepoInfo_def)
  moreover have "countOf Map.empty (Name r) = 0"
    by (simp add: countOf_def)
  ultimately show c: "Count r = int (length (eventsOf (Name r) E))"
    using e(1) by (simp add: countOf_countRepos)
  then show "Count r \<le> int (length (eventsOf (Name r) E))"
    by simp
  have "LastActivity r = lastActOf (snd ?maps) (Name r)"
    by (subst e(2)) (simp add: mkRepoInfo_def)
  moreover have "lastActOf Map.empty (Name r) = zeroTime"
    by (simp add: lastActOf_def)
  ultimately show l: "LastActivity r = Max (insert zeroTime ?T)"
    using e(1) by (simp add: lastActOf_countRepos)
  show "(\<exists>e \<in> set (eventsOf (Name r) E). zeroTime \<le> Event_CreatedAt e) \<longrightarrow>
          LastActivity r = Max ?T"
  proof
    assume "\<exists>e \<in> set (eventsOf (Name r) E). zeroTime \<le> Event_CreatedAt e"
    then obtain e where "e \<in> set (eventsOf (Name r) E)" "zeroTime \<le> Event_CreatedAt e"
      by blast
    then have mem: "Event_CreatedAt e \<in> ?T"
      by simp
    then have "Event_CreatedAt e \<le> Max ?T"
      by simp
    then have "zeroTime \<le> Max ?T"
      using \<open>zeroTime \<le> Event_CreatedAt e\<close> by simp
    moreover have "?T \<noteq> {}"
      using mem by auto
    ultimately show "LastActivity r = Max ?T"
      using l by (simp add: max_def)
  qed
next
  show "sortedByCount (getTopRepos order E)"
    unfolding getTopRepos_def Let_def
    by (rule sorted_bubble_outer) (simp_all add: settled_0)
next
  have "mset (getTopRepos order E) =
      mset (map (mkRepoInfo (countRepos E (Map.empty, Map.empty))) order)"
    unfolding getTopRepos_def Let_def by (simp add: mset_bubble_outer)
  then have "mset (map Name (getTopRepos order E)) =
      mset (map Name (map (mkRepoInfo (countRepos E (Map.empty, Map.empty))) order))"
    by (metis mset_map)
  then show "mset (map Name (getTopRepos order E)) = mset order"
    by (simp add: mkRepoInfo_def comp_def)
qed

lemma aggEvents_maps:
  "countRepos aggEvents (Map.empty, Map.empty) =
     ([''o/a'' \<mapsto> 2, ''o/b'' \<mapsto> 1], [''o/a'' \<mapsto> 9, ''o/b'' \<mapsto> 7])"
  by (simp add: aggEvents_def countRepo_def mkEvent_def countOf_def lastActOf_def
      After_def zeroTime_def Let_def fun_upd_twist)

lemma aggEvents_order: "rangeOrder [''o/b'', ''o/a''] aggEvents"
  by (auto simp add: rangeOrder_def aggEvents_maps)

lemma aggEvents_top:
  "getTopRepos [''o/b'', ''o/a''] aggEvents =
     [\<lparr> Name = ''o/a'', URL = ''https://github.com/o/a'',
        CloneURL = ''https://github.com/o/a.git'', Count = 2, LastActivity = 9,
        Description = [] \<rparr>,
      \<lparr> Name = ''o/b'', URL = ''https://github.com/o/b'',
        CloneURL = ''https://github.com/o/b.git'', Count = 1, LastActivity = 7,
        Description = [] \<rparr>]"
  by (simp add: getTopRepos_def aggEvents_maps mkRepoInfo_def countOf_def lastActOf_def
      bubble_outer.simps bubble_inner.simps Let_def)

lemma getTopRepos_counts_sorted_example:
  "rangeOrder [''o/b'', ''o/a''] aggEvents \<and>
   map Count (getTopRepos [''o/b'', ''o/a''] aggEvents) = [2, 1] \<and>
   map LastActivity (getTopRepos [''o/b'', ''o/a''] aggEvents) = [9, 7] \<and>
   sortedByCount (getTopRepos [''o/b'', ''o/a''] aggEvents) \<and>
   mset (map Name (getTopRepos [''o/b'', ''o/a''] aggEvents)) = mset [''o/b'', ''o/a'']"
  using getTopRepos_counts_sorted[OF aggEvents_order]
  by (simp add: aggEvents_top aggEvents_order)


section \<open>Properties of the repository ingestion\<close>

lemma loop_public:
  assumes run: "fetchPublicRepos_loop http page acc = Some res"
  shows "(\<forall>r \<in> set acc. \<not> Private r) \<longrightarrow> (\<forall>out. res = Inr out \<longrightarrow> (\<forall>r \<in> set out. \<not> Private r))"
proof (rule fetchPublicRepos_loop.raw_induct[OF _ run, where P = "\<lambda>http page acc res.
    (\<forall>r \<in> set acc. \<not> Private r) \<longrightarrow> (\<forall>out. res = Inr out \<longrightarrow> (\<forall>r \<in> set out. \<not> Private r))"],
    goal_cases)
  case (1 loop http page acc res)
  show ?case
  proof (intro impI allI)
    fix out assume acc: "\<forall>r \<in> set acc. \<not> Private r" and res: "res = Inr out"
    show "\<forall>r \<in> set out. \<not> Private r"
    proof (cases "http page")
      case NewRequestFails
      then show ?thesis using 1(2) res by simp
    next
      case DoFails
      then show ?thesis using 1(2) res by simp
    next
      case (Responds code body)
      show ?thesis
      proof (cases body)
        case ReadFails
        then show ?thesis using 1(2) res Responds by (simp split: if_splits)
      next
        case UnmarshalFails
        then show ?thesis using 1(2) res Responds by (simp split: if_splits)
      next
        case (Decoded rs)
        let ?acc' = "acc @ filter (\<lambda>repo. \<not> Private repo) rs"
        have acc': "\<forall>r \<in> set ?acc'. \<not> Private r"
          using acc by auto
        have "out = acc \<or> out = ?acc' \<or> loop http (page + 1) ?acc' = Some res"
          using 1(2) res Responds Decoded by (auto split: if_splits)
        then show ?thesis
        proof (elim disjE)
          assume "out = acc"
          then show ?thesis using acc by simp
        next
          assume "out = ?acc'"
          then show ?thesis using acc' by (simp only:)
        next
          assume rec: "loop http (page + 1) ?acc' = Some res"
          have "\<forall>out. res = Inr out \<longrightarrow> (\<forall>r \<in> set out. \<not> Private r)"
            using 1(1)[OF rec] acc' by (rule mp)
          then show ?thesis using res by blast
        qed
      qed
    qed
  qed
qed

lemma loop_ends:
  assumes "page \<le> k"
    and "\<forall>p \<in> {page..<k}. fullPage http p"
    and "lastPage http k"
  shows "fetchPublicRepos_loop http page acc =
     Some (Inr (acc @ filter (\<lambda>r. \<not> Private r) (concat (map (\<lambda>p. payloadOf (http p)) [page..<Suc k]))))"
  using assms
proof (induction "k - page" arbitrary: page acc)
  case 0
  then have "page = k" by simp
  then obtain rs where rs: "http page = Responds 200 (Decoded rs)" "length rs < perPage"
    using "0.prems"(3) by (auto simp add: lastPage_def)
  show ?case
    using rs \<open>page = k\<close>
    by (subst fetchPublicRepos_loop.simps) (simp add: payloadOf_def)
next
  case (Suc d)
  then have lt: "page < k" by simp
  then have "fullPage http page"
    using Suc.prems(2) by simp
  then obtain rs where rs: "http page = Responds 200 (Decoded rs)" "perPage \<le> length rs"
    by (auto simp add: fullPage_def)
  have ne: "length rs \<noteq> 0" "\<not> length rs < perPage"
    using rs(2) by (auto simp add: perPage_def)
  have rest: "fetchPublicRepos_loop http (page + 1) (acc @ filter (\<lambda>r. \<not> Private r) rs) =
      Some (Inr ((acc @ filter (\<lambda>r. \<not> Private r) rs) @
        filter (\<lambda>r. \<not> Private r) (concat (map (\<lambda>p. payloadOf (http p)) [page + 1..<Suc k]))))"
    using Suc.hyps(2) lt Suc.prems(2,3) by (intro Suc.hyps(1)) simp_all
  have upt: "[page..<Suc k] = page # [page + 1..<Suc k]"
    using lt by (simp add: upt_conv_Cons)
  have here: "payloadOf (Responds 200 (Decoded rs)) = rs"
    by (simp add: payloadOf_def)
  show ?case
    using rs(1) ne rest
    by (subst fetchPublicRepos_loop.simps) (simp add: upt here del: upt_Suc)
qed

lemma loop_success_shape:
  assumes run: "fetchPublicRepos_loop http page acc = Some res"
  shows "\<forall>out. res = Inr out \<longrightarrow>
           (\<exists>k\<ge>page. (\<forall>p \<in> {page..<k}. fullPage http p) \<and> lastPage http k)"
proof (rule fetchPublicRepos_loop.raw_induct[OF _ run, where P = "\<lambda>http page acc res.
    \<forall>out. res = Inr out \<longrightarrow>
           (\<exists>k\<ge>page. (\<forall>p \<in> {page..<k}. fullPage http p) \<and> lastPage http k)"], goal_cases)
  case (1 loop http page acc res)
  show ?case
  proof (intro allI impI)
    fix out assume res: "res = Inr out"
    show "\<exists>k\<ge>page. (\<forall>p \<in> {page..<k}. fullPage http p) \<and> lastPage http k"
    proof (cases "lastPage http page")
      case True
      then show ?thesis by (intro exI[of _ page]) simp
    next
      case False
      then obtain rs where rs: "http page = Responds 200 (Decoded rs)" "perPage \<le> length rs"
        and rec: "loop http (page + 1) (acc @ filter (\<lambda>r. \<not> Private r) rs) = Some res"
        using 1(2) res
        by (auto simp add: lastPage_def perPage_def split: roundTrip.splits bodyResult.splits if_splits)
      from 1(1)[OF rec] res obtain k where k: "page + 1 \<le> k"
        "\<forall>p \<in> {page + 1..<k}. fullPage http p" "lastPage http k"
        by blast
      have "fullPage http page" using rs by (auto simp add: fullPage_def)
      then have "\<forall>p \<in> {page..<k}. fullPage http p"
        using k(2) by (metis Suc_eq_plus1 Suc_leI atLeastLessThan_iff le_neq_implies_less)
      then show ?thesis using k by (intro exI[of _ k]) simp
    qed
  qed
qed


text \<open>
  C6: whatever the server sends, a repository set that \<open>fetchPublicRepos\<close> returns holds
  no record with the private flag, it is the list of the non-private records of the
  pages read, in their order, and it becomes the working set \<open>publicRepos\<close> when its
  message is delivered. On every run whose pages are full up to a last page with fewer
  than 100 records, \<open>fetchPublicRepos\<close> returns that set, so every non-private record of
  the payload is retained.
\<close>

theorem fetchPublicRepos_public_only:
  "(fetchPublicRepos http = Some (Inr out) \<longrightarrow>
      (\<forall>r \<in> set out. \<not> Private r) \<and>
      (\<exists>k. endsAtPage http k \<and> out = filter (\<lambda>r. \<not> Private r) (payloadUpTo http k)) \<and>
      publicRepos (fst (Update E m (reposLoadedMsg out None))) = out) \<and>
   (endsAtPage http k \<longrightarrow>
      fetchPublicRepos http = Some (Inr (filter (\<lambda>r. \<not> Private r) (payloadUpTo http k))) \<and>
      (\<forall>r \<in> set (payloadUpTo http k). \<not> Private r \<longrightarrow>
         (\<exists>kept. fetchPublicRepos http = Some (Inr kept) \<and> r \<in> set kept)))"
proof (intro conjI impI)
  assume run: "fetchPublicRepos http = Some (Inr out)"
  then have loop: "fetchPublicRepos_loop http 1 [] = Some (Inr out)"
    by (simp add: fetchPublicRepos_def)
  show "\<forall>r \<in> set out. \<not> Private r"
    using loop_public[OF loop] by simp
  obtain j where j: "1 \<le> j" "\<forall>p \<in> {1..<j}. fullPage http p" "lastPage http j"
    using loop_success_shape[OF loop] by blast
  have "fetchPublicRepos_loop http 1 [] =
      Some (Inr ([] @ filter (\<lambda>r. \<not> Private r) (concat (map (\<lambda>p. payloadOf (http p)) [1..<Suc j]))))"
    using j by (rule loop_ends)
  then have "out = filter (\<lambda>r. \<not> Private r) (payloadUpTo http j)"
    using loop by (simp add: payloadUpTo_def)
  then show "\<exists>k. endsAtPage http k \<and> out = filter (\<lambda>r. \<not> Private r) (payloadUpTo http k)"
    using j by (auto simp add: endsAtPage_def)
  show "publicRepos (fst (Update E m (reposLoadedMsg out None))) = out"
    by (simp add: load_defs)
next
  assume ends: "endsAtPage http k"
  then have k: "1 \<le> k" "\<forall>p \<in> {1..<k}. fullPage http p" "lastPage http k"
    by (simp_all add: endsAtPage_def)
  have "fetchPublicRepos_loop http 1 [] =
      Some (Inr ([] @ filter (\<lambda>r. \<not> Private r) (concat (map (\<lambda>p. payloadOf (http p)) [1..<Suc k]))))"
    using k by (rule loop_ends)
  then show res: "fetchPublicRepos http = Some (Inr (filter (\<lambda>r. \<not> Private r) (payloadUpTo http k)))"
    by (simp add: fetchPublicRepos_def payloadUpTo_def)
  show "\<forall>r \<in> set (payloadUpTo http k). \<not> Private r \<longrightarrow>
         (\<exists>kept. fetchPublicRepos http = Some (Inr kept) \<and> r \<in> set kept)"
    unfolding res by simp
qed

lemma pagedHttp_ends: "endsAtPage pagedHttp 2"
  by (auto simp add: endsAtPage_def fullPage_def lastPage_def pagedHttp_def perPage_def)

lemma pagedHttp_payload:
  "filter (\<lambda>r. \<not> Private r) (payloadUpTo pagedHttp 2) =
     replicate 99 (mkPublicRepo ''open'' 1 False) @ [mkPublicRepo ''hello'' 3 False]"
proof -
  have "[1..<Suc 2] = [1, 2]"
    by (simp add: upt_rec)
  then show ?thesis
    by (simp add: payloadUpTo_def payloadOf_def pagedHttp_def mkPublicRepo_def)
qed

theorem fetchPublicRepos_public_only_witness:
  "fullPage pagedHttp 1 \<and> lastPage pagedHttp 2 \<and>
   fetchPublicRepos pagedHttp =
     Some (Inr (replicate 99 (mkPublicRepo ''open'' 1 False) @ [mkPublicRepo ''hello'' 3 False])) \<and>
   filter Private
     (replicate 99 (mkPublicRepo ''open'' 1 False) @ [mkPublicRepo ''hello'' 3 False]) = []"
proof -
  have pages: "fullPage pagedHttp 1" "lastPage pagedHttp 2"
    by (simp_all add: fullPage_def lastPage_def pagedHttp_def perPage_def)
  have run: "fetchPublicRepos pagedHttp =
      Some (Inr (replicate 99 (mkPublicRepo ''open'' 1 False) @ [mkPublicRepo ''hello'' 3 False]))"
    using fetchPublicRepos_public_only[where http = pagedHttp and k = 2] pagedHttp_ends
    by (simp add: pagedHttp_payload)
  have "\<forall>r \<in> set (replicate 99 (mkPublicRepo ''open'' 1 False) @
      [mkPublicRepo ''hello'' 3 False]). \<not> Private r"
    using run fetchPublicRepos_public_only[where http = pagedHttp and k = 2 and
        out = "replicate 99 (mkPublicRepo ''open'' 1 False) @ [mkPublicRepo ''hello'' 3 False]"]
    by blast
  then have "filter Private
      (replicate 99 (mkPublicRepo ''open'' 1 False) @ [mkPublicRepo ''hello'' 3 False]) = []"
    by (simp only: filter_empty_conv)
  then show ?thesis
    using pages run by blast
qed

end
